theory Spec2Isabelle
  imports Main "HOL-Library.AList"
begin

section \<open>Strings\<close>

text \<open>
  The tables of the scrubber hold strings read with \<^verbatim>\<open>dtype=str\<close>. A string is a
  \<^typ>\<open>string\<close> and a \<^typ>\<open>char\<close> is a code point below 256. Among these code points
  \<^verbatim>\<open>str.isdigit\<close> accepts the ten decimal digits and the three superscript digits U+00B2,
  U+00B3 and U+00B9, whereas \<^verbatim>\<open>\d\<close> in a pattern accepts the ten decimal digits only. The
  letters below are the ASCII letters: the notebook applies \<^verbatim>\<open>str.title\<close> to values that
  passed a pattern whose classes hold ASCII characters, and the processor compares lowered
  values with ASCII words, which no other character lowers to.
\<close>

definition is_digit :: "char \<Rightarrow> bool" where
  "is_digit c \<longleftrightarrow>
     (48::nat) \<le> of_char c \<and> of_char c \<le> (57::nat) \<or>
     of_char c = (178::nat) \<or> of_char c = (179::nat) \<or> of_char c = (185::nat)"

definition is_lower :: "char \<Rightarrow> bool" where
  "is_lower c \<longleftrightarrow> (97::nat) \<le> of_char c \<and> of_char c \<le> (122::nat)"

definition is_upper :: "char \<Rightarrow> bool" where
  "is_upper c \<longleftrightarrow> (65::nat) \<le> of_char c \<and> of_char c \<le> (90::nat)"

definition to_upper :: "char \<Rightarrow> char" where
  "to_upper c = (if is_lower c then char_of (of_char c - (32::nat)) else c)"

definition to_lower :: "char \<Rightarrow> char" where
  "to_lower c = (if is_upper c then char_of (of_char c + (32::nat)) else c)"

text \<open>\<^verbatim>\<open>str.isdigit()\<close>: true iff the string is not empty and all its characters are digits.\<close>

definition isdigit :: "string \<Rightarrow> bool" where
  "isdigit s \<longleftrightarrow> s \<noteq> [] \<and> list_all is_digit s"

text \<open>
  \<^verbatim>\<open>str.title()\<close>: a cased character is upper-cased when the character before it is not
  cased, and lower-cased otherwise.
\<close>

fun title_from :: "bool \<Rightarrow> string \<Rightarrow> string" where
  "title_from prev [] = []"
| "title_from prev (c # cs) =
     (if prev then to_lower c else to_upper c) # title_from (is_lower c \<or> is_upper c) cs"

definition title :: "string \<Rightarrow> string" where
  "title s = title_from False s"

definition upper :: "string \<Rightarrow> string" where
  "upper s = map to_upper s"

definition lower :: "string \<Rightarrow> string" where
  "lower s = map to_lower s"

text \<open>\<^verbatim>\<open>sub in s\<close> on strings.\<close>

fun contains :: "string \<Rightarrow> string \<Rightarrow> bool" where
  "contains sub [] = (sub = [])"
| "contains sub (c # cs) = (take (length sub) (c # cs) = sub \<or> contains sub cs)"

text \<open>\<^verbatim>\<open>str(n)\<close> for a non-negative integer.\<close>

function str_of_nat :: "nat \<Rightarrow> string" where
  "str_of_nat n =
     (if n < 10 then [char_of (48 + n)]
      else str_of_nat (n div 10) @ [char_of (48 + n mod 10)])"
  by pat_completeness auto
termination
  by (relation "measure id") auto

section \<open>Regular expressions\<close>

text \<open>
  The fragment of Python's \<^verbatim>\<open>re\<close> syntax that \<^verbatim>\<open>MY_REGX\<close> uses: the anchors \<^verbatim>\<open>^\<close> and
  \<^verbatim>\<open>$\<close>, character classes (a list of inclusive ranges), sequence, ordered alternation,
  greedy repetition \<^verbatim>\<open>{lo,hi}\<close> (\<^verbatim>\<open>?\<close> is \<^verbatim>\<open>{0,1}\<close>, \<^verbatim>\<open>+\<close> is \<^verbatim>\<open>{1,}\<close>) and numbered
  capture groups; \<^verbatim>\<open>(?:...)\<close> groups nothing and needs no constructor.
\<close>

datatype rx =
    Bol
  | Eol
  | Cls "(char \<times> char) list"
  | Seq rx rx
  | Alt rx rx
  | Rep nat "nat option" rx
  | Grp nat rx

text \<open>A compiled pattern: the expression and the \<^verbatim>\<open>re.I\<close> flag.\<close>

datatype pattern = Pattern rx bool

text \<open>
  The matcher is the backtracking one of \<^verbatim>\<open>re\<close>: from a state (position, rest of the
  input, captures so far) it returns every way to match, in the order in which Python tries
  them, so the head of the list is the match Python reports.
\<close>

type_synonym mstate = "nat \<times> string \<times> (nat \<times> string) list"

definition in_range :: "char \<Rightarrow> char \<times> char \<Rightarrow> bool" where
  "in_range c r \<longleftrightarrow> (of_char (fst r) :: nat) \<le> of_char c \<and> (of_char c :: nat) \<le> of_char (snd r)"

definition in_class :: "bool \<Rightarrow> (char \<times> char) list \<Rightarrow> char \<Rightarrow> bool" where
  "in_class ic rs c \<longleftrightarrow>
     list_ex (in_range c) rs \<or>
     (ic \<and> (list_ex (in_range (to_lower c)) rs \<or> list_ex (in_range (to_upper c)) rs))"

fun rep :: "(mstate \<Rightarrow> mstate list) \<Rightarrow> nat \<Rightarrow> nat \<Rightarrow> mstate \<Rightarrow> mstate list" where
  "rep f lo 0 st = (if lo = 0 then [st] else [])"
| "rep f lo (Suc h) st =
     concat (map (rep f (lo - 1) h) (f st)) @ (if lo = 0 then [st] else [])"

text \<open>
  \<^verbatim>\<open>$\<close> matches at the end of the input and before a newline that ends it. An unbounded
  repetition is cut at the length of the remaining input; the bodies repeated without bound
  in \<^verbatim>\<open>MY_REGX\<close> (\<^verbatim>\<open>\d+\<close>) consume one character per round, so nothing is lost.
\<close>

primrec run :: "bool \<Rightarrow> rx \<Rightarrow> mstate \<Rightarrow> mstate list" where
  "run ic Bol st = (if fst st = 0 then [st] else [])"
| "run ic Eol st = (if fst (snd st) = [] \<or> fst (snd st) = [CHR 0x0A] then [st] else [])"
| "run ic (Cls rs) st =
     (case fst (snd st) of
        [] \<Rightarrow> []
      | c # cs \<Rightarrow> if in_class ic rs c then [(Suc (fst st), cs, snd (snd st))] else [])"
| "run ic (Seq a b) st = concat (map (run ic b) (run ic a st))"
| "run ic (Alt a b) st = run ic a st @ run ic b st"
| "run ic (Rep lo hi r) st =
     rep (run ic r) lo (case hi of Some h \<Rightarrow> h | None \<Rightarrow> length (fst (snd st))) st"
| "run ic (Grp k r) st =
     map (\<lambda>st'. (fst st', fst (snd st'),
            AList.update k (take (fst st' - fst st) (fst (snd st))) (snd (snd st'))))
         (run ic r st)"

text \<open>\<^verbatim>\<open>pattern.match(s)\<close>: a match that starts at position 0 (it need not reach the end).\<close>

fun re_match :: "pattern \<Rightarrow> string \<Rightarrow> bool" where
  "re_match (Pattern r ic) s = (run ic r (0, s, []) \<noteq> [])"

text \<open>
  \<^verbatim>\<open>pattern.search(s)\<close>: the first match, trying the start positions from left to right;
  the result is the captures of that match.
\<close>

fun search_from :: "bool \<Rightarrow> rx \<Rightarrow> nat \<Rightarrow> string \<Rightarrow> (nat \<times> string) list option" where
  "search_from ic r p [] =
     (case run ic r (p, [], []) of [] \<Rightarrow> None | st # _ \<Rightarrow> Some (snd (snd st)))"
| "search_from ic r p (c # cs) =
     (case run ic r (p, c # cs, []) of
        [] \<Rightarrow> search_from ic r (Suc p) cs
      | st # _ \<Rightarrow> Some (snd (snd st)))"

fun re_search :: "pattern \<Rightarrow> string \<Rightarrow> (nat \<times> string) list option" where
  "re_search (Pattern r ic) s = search_from ic r 0 s"

subsection \<open>Notation for patterns\<close>

fun seqs :: "rx list \<Rightarrow> rx" where
  "seqs [] = Rep 0 (Some 0) Bol"
| "seqs [r] = r"
| "seqs (r # rs) = Seq r (seqs rs)"

definition lit :: "char \<Rightarrow> rx" where
  "lit c = Cls [(c, c)]"

definition digit :: rx where
  "digit = Cls [(CHR ''0'', CHR ''9'')]"

definition opt :: "rx \<Rightarrow> rx" where
  "opt r = Rep 0 (Some 1) r"

definition many1 :: "rx \<Rightarrow> rx" where
  "many1 r = Rep 1 None r"

definition between :: "nat \<Rightarrow> nat \<Rightarrow> rx \<Rightarrow> rx" where
  "between lo hi r = Rep lo (Some hi) r"

subsection \<open>The patterns of \<^verbatim>\<open>MY_REGX\<close>\<close>

text \<open>\<^verbatim>\<open>TWO_LETTERS = re.compile(r'^[a-z]{2}$', flags=re.I)\<close>\<close>

definition TWO_LETTERS :: pattern where
  "TWO_LETTERS = Pattern (seqs [Bol, between 2 2 (Cls [(CHR ''a'', CHR ''z'')]), Eol]) True"

text \<open>\<^verbatim>\<open>BLOCK = re.compile(r'^(\d{1,4}X{1,4}) ((?:[a-z\d] ?){1,20}){1,5}$', flags=re.I)\<close>\<close>

definition BLOCK :: pattern where
  "BLOCK = Pattern (seqs [Bol,
       Grp 1 (seqs [between 1 4 digit, between 1 4 (lit CHR ''X'')]),
       lit CHR '' '',
       between 1 5 (Grp 2 (between 1 20
         (seqs [Cls [(CHR ''a'', CHR ''z''), (CHR ''0'', CHR ''9'')], opt (lit CHR '' '')]))),
       Eol]) True"

text \<open>\<^verbatim>\<open>IUCR = re.compile(r'^[a-z\d]{4}$', flags=re.I)\<close>\<close>

definition IUCR :: pattern where
  "IUCR = Pattern (seqs [Bol,
       between 4 4 (Cls [(CHR ''a'', CHR ''z''), (CHR ''0'', CHR ''9'')]), Eol]) True"

text \<open>\<^verbatim>\<open>PRIMARY_TYPE = re.compile(r'^(?:[a-z\-]{1,20}(?: |$)){1,5}$', flags=re.I)\<close>\<close>

definition PRIMARY_TYPE :: pattern where
  "PRIMARY_TYPE = Pattern (seqs [Bol,
       between 1 5 (seqs [between 1 20 (Cls [(CHR ''a'', CHR ''z''), (CHR ''-'', CHR ''-'')]),
                        Alt (lit CHR '' '') Eol]),
       Eol]) True"

text \<open>
  \<^verbatim>\<open>DESCRIPTION = re.compile(r'^(?:[a-z\-\/\:\,\.\(\)\d\$}]{1,25}(?: |$)){1,7}$', flags=re.I)\<close>
\<close>

definition DESCRIPTION :: pattern where
  "DESCRIPTION = Pattern (seqs [Bol,
       between 1 7 (seqs [between 1 25 (Cls [(CHR ''a'', CHR ''z''), (CHR ''-'', CHR ''-''),
                          (CHR ''/'', CHR ''/''), (CHR '':'', CHR '':''), (CHR '','', CHR '',''),
                          (CHR ''.'', CHR ''.''), (CHR ''('', CHR ''(''), (CHR '')'', CHR '')''),
                          (CHR ''0'', CHR ''9''), (CHR ''$'', CHR ''$''), (CHR ''}'', CHR ''}'')]),
                        Alt (lit CHR '' '') Eol]),
       Eol]) True"

text \<open>
  \<^verbatim>\<open>LOCATION_DESCRIPTION = re.compile(r'^(?:[a-z\-\/\.\,\(\)]{1,20}(?: |$)){1,7}$', flags=re.I)\<close>
\<close>

definition LOCATION_DESCRIPTION :: pattern where
  "LOCATION_DESCRIPTION = Pattern (seqs [Bol,
       between 1 7 (seqs [between 1 20 (Cls [(CHR ''a'', CHR ''z''), (CHR ''-'', CHR ''-''),
                          (CHR ''/'', CHR ''/''), (CHR ''.'', CHR ''.''), (CHR '','', CHR '',''),
                          (CHR ''('', CHR ''(''), (CHR '')'', CHR '')'')]),
                        Alt (lit CHR '' '') Eol]),
       Eol]) True"

text \<open>\<^verbatim>\<open>LOCATION = re.compile(r'^\((-?\d+\.\d+), ?(-?\d+\.\d+)\)$')\<close>\<close>

definition LOCATION :: pattern where
  "LOCATION = Pattern (seqs [Bol, lit CHR ''('',
       Grp 1 (seqs [opt (lit CHR ''-''), many1 digit, lit CHR ''.'', many1 digit]),
       lit CHR '','', opt (lit CHR '' ''),
       Grp 2 (seqs [opt (lit CHR ''-''), many1 digit, lit CHR ''.'', many1 digit]),
       lit CHR '')'', Eol]) False"

text \<open>
  \<^verbatim>\<open>ZIP_CODES = re.compile(r'^\d{5}|\d{4}$')\<close>: the alternation binds weaker than the
  anchors, so the pattern reads \<^verbatim>\<open>(^\d{5})|(\d{4}$)\<close>.
\<close>

definition ZIP_CODES :: pattern where
  "ZIP_CODES = Pattern (Alt (seqs [Bol, between 5 5 digit]) (seqs [between 4 4 digit, Eol])) False"

section \<open>Tables and series\<close>

text \<open>
  A \<^verbatim>\<open>DataFrame\<close> read with \<^verbatim>\<open>dtype=str\<close>: the ordered column names and the rows, each
  with its index label and its cells; a cell is a string or null (\<^term>\<open>None\<close>). A
  \<^verbatim>\<open>Series\<close> is a list of labelled values, null being \<^term>\<open>None\<close>.
\<close>

type_synonym row = "string \<rightharpoonup> string"

record table =
  columns :: "string list"
  rows :: "(nat \<times> row) list"

type_synonym 'a series = "(nat \<times> 'a option) list"

definition index :: "table \<Rightarrow> nat list" where
  "index t = map fst (rows t)"

text \<open>
  The cell of a row under a column. Every read goes through the column names of the table:
  a column that the table does not have holds no value (pandas raises \<^verbatim>\<open>KeyError\<close> there;
  the notebook selects \<^verbatim>\<open>keep_cols\<close> before it scrubs, so no rule reads a missing column).
\<close>

definition cell :: "table \<Rightarrow> row \<Rightarrow> string \<Rightarrow> string option" where
  "cell t r c = (if c \<in> set (columns t) then r c else None)"

text \<open>\<^verbatim>\<open>df[c]\<close>\<close>

definition get_col :: "table \<Rightarrow> string \<Rightarrow> string series" where
  "get_col t c = map (\<lambda>(i, r). (i, cell t r c)) (rows t)"

text \<open>\<^verbatim>\<open>df.at[i, c]\<close>: the cell under column \<open>c\<close> of the row labelled \<open>i\<close>.\<close>

definition cell_at :: "table \<Rightarrow> nat \<Rightarrow> string \<Rightarrow> string option" where
  "cell_at t i c = (case map_of (rows t) i of None \<Rightarrow> None | Some r \<Rightarrow> cell t r c)"

text \<open>Label lookup in a series; a label that the series lacks reads as null (reindexing).\<close>

definition ser_at :: "'a series \<Rightarrow> nat \<Rightarrow> 'a option" where
  "ser_at ser i = (case map_of ser i of None \<Rightarrow> None | Some v \<Rightarrow> v)"

definition add_column :: "string list \<Rightarrow> string \<Rightarrow> string list" where
  "add_column cs c = (if c \<in> set cs then cs else cs @ [c])"

text \<open>\<^verbatim>\<open>df[c] = ser\<close>: the series is aligned on the index of the table.\<close>

definition assign_col :: "table \<Rightarrow> string \<Rightarrow> string series \<Rightarrow> table" where
  "assign_col t c ser =
     t\<lparr>columns := add_column (columns t) c,
       rows := map (\<lambda>(i, r). (i, r(c := ser_at ser i))) (rows t)\<rparr>"

text \<open>\<^verbatim>\<open>df.drop(columns=c, inplace=True)\<close>\<close>

definition drop_col :: "table \<Rightarrow> string \<Rightarrow> table" where
  "drop_col t c =
     t\<lparr>columns := removeAll c (columns t),
       rows := map (\<lambda>(i, r). (i, r(c := None))) (rows t)\<rparr>"

text \<open>\<^verbatim>\<open>df.loc[~df.index.isin(ids)]\<close>\<close>

definition loc_not_isin :: "table \<Rightarrow> nat set \<Rightarrow> table" where
  "loc_not_isin t ids = t\<lparr>rows := filter (\<lambda>(i, r). i \<notin> ids) (rows t)\<rparr>"

text \<open>\<^verbatim>\<open>df.loc[df.index.isin(ids)]\<close>: the rows whose label is among \<open>ids\<close>.\<close>

definition loc_isin :: "table \<Rightarrow> nat set \<Rightarrow> table" where
  "loc_isin t ids = t\<lparr>rows := filter (\<lambda>(i, r). i \<in> ids) (rows t)\<rparr>"

text \<open>\<^verbatim>\<open>df[cols]\<close> for a list of column names of the table.\<close>

definition select_cols :: "table \<Rightarrow> string list \<Rightarrow> table" where
  "select_cols t cs =
     \<lparr>columns = cs, rows = map (\<lambda>(i, r). (i, (\<lambda>c. if c \<in> set cs then cell t r c else None))) (rows t)\<rparr>"

subsection \<open>Operations on series\<close>

text \<open>
  The \<^verbatim>\<open>.str\<close> methods work value by value and give null on null; \<open>str_op f\<close> is the
  series-level method of the string function \<open>f\<close>.
\<close>

definition str_op :: "('a \<Rightarrow> 'b) \<Rightarrow> 'a series \<Rightarrow> 'b series" where
  "str_op f ser = map (\<lambda>(i, v). (i, map_option f v)) ser"

definition str_isdigit :: "string series \<Rightarrow> bool series" where
  "str_isdigit ser = str_op isdigit ser"

definition str_title :: "string series \<Rightarrow> string series" where
  "str_title ser = str_op title ser"

definition str_upper :: "string series \<Rightarrow> string series" where
  "str_upper ser = str_op upper ser"

definition str_lower :: "string series \<Rightarrow> string series" where
  "str_lower ser = str_op lower ser"

definition str_len :: "string series \<Rightarrow> nat series" where
  "str_len ser = str_op length ser"

text \<open>\<^verbatim>\<open>ser.str.slice(start, stop)\<close> for non-negative bounds.\<close>

definition str_slice :: "nat \<Rightarrow> nat \<Rightarrow> string series \<Rightarrow> string series" where
  "str_slice start stop ser = str_op (\<lambda>s. take (stop - start) (drop start s)) ser"

text \<open>\<^verbatim>\<open>ser.str.match(pat)\<close>: null stays null.\<close>

definition str_match :: "pattern \<Rightarrow> string series \<Rightarrow> bool series" where
  "str_match pat ser = str_op (re_match pat) ser"

text \<open>\<^verbatim>\<open>ser.str.match(pat, na=False)\<close>: null gives \<^verbatim>\<open>False\<close>.\<close>

definition str_match_na_false :: "pattern \<Rightarrow> string series \<Rightarrow> bool series" where
  "str_match_na_false pat ser =
     map (\<lambda>(i, v). (i, Some (case v of None \<Rightarrow> False | Some s \<Rightarrow> re_match pat s))) ser"

text \<open>\<^verbatim>\<open>ser.le(n)\<close>: a comparison with null is \<^verbatim>\<open>False\<close>.\<close>

definition series_le :: "nat series \<Rightarrow> nat \<Rightarrow> bool series" where
  "series_le ser n = map (\<lambda>(i, v). (i, Some (case v of None \<Rightarrow> False | Some k \<Rightarrow> k \<le> n))) ser"

text \<open>\<^verbatim>\<open>a & b\<close> on boolean series, aligned on the labels of \<open>a\<close>.\<close>

definition series_and :: "bool series \<Rightarrow> bool series \<Rightarrow> bool series" where
  "series_and a b = map (\<lambda>(i, v). (i, Some (v = Some True \<and> ser_at b i = Some True))) a"

section \<open>The field processor\<close>

text \<open>
  A reject record (\<^verbatim>\<open>defaultdict(set)\<close>): column names, in insertion order, with the set
  of row labels rejected under each; a column without an entry has the empty set.
\<close>

type_synonym rejects = "(string \<times> nat set) list"

definition rejected :: "rejects \<Rightarrow> string \<Rightarrow> nat set" where
  "rejected rej c = (case map_of rej c of None \<Rightarrow> {} | Some ids \<Rightarrow> ids)"

definition add_rejects :: "rejects \<Rightarrow> string \<Rightarrow> nat set \<Rightarrow> rejects" where
  "add_rejects rej c ids = AList.update c (rejected rej c \<union> ids) rej"

text \<open>
  A parsed date, as far as the notebook reads it (\<^verbatim>\<open>.dt.year\<close>, \<^verbatim>\<open>.dt.month\<close>), and the
  values that a generator receives: the strings of the column or, for a date field, the
  parsed dates.
\<close>

record timestamp =
  ts_year :: nat
  ts_month :: nat

datatype val = Str string | Dt timestamp

text \<open>A validation is a compiled pattern or a function from the column to a boolean mask.\<close>

datatype validation = Regex pattern | Lambda "string series \<Rightarrow> bool series"

text \<open>
  The keyword arguments of \<^verbatim>\<open>process_field\<close> that the notebook passes; \<open>no_params\<close> has
  every option unset.
\<close>

record params =
  validation :: "validation option"
  valid_values :: "string list option"
  other_nulls :: "string list"
  date_field :: bool
  post_process :: "(string option \<times> (string series \<Rightarrow> string series)) list"
  generated_cols :: "(table \<Rightarrow> val series \<Rightarrow> table) list"
  drop_field :: bool

definition no_params :: params where
  "no_params = \<lparr>validation = None, valid_values = None, other_nulls = [], date_field = False,
     post_process = [], generated_cols = [], drop_field = False\<rparr>"

text \<open>
  \<^verbatim>\<open>data_utils.process_field\<close> is not among the sources. The definitions from here to
  \<open>process_field\<close> follow the eight steps of the field processor's contract in the
  specification. The notebook calls \<^verbatim>\<open>process_field(df, field, rejects, **params)\<close>; the
  contract adds the mandatory flag, which the hard-reject phase sets and the soft-reject
  phase does not. The date parser (the "known formats") is not among the sources either and
  is the parameter \<open>parse\<close>. The fatal errors of the contract do not arise in this model:
  every cell is a string or null, so no pattern meets other data, and a series is aligned
  on the labels of the table, so no result has the wrong shape.
\<close>

text \<open>
  Modelled from the spec: step 1 of \<^verbatim>\<open>data_utils.process_field\<close>, the \<^verbatim>\<open>other_nulls\<close>
  sentinels become null.
\<close>

definition normalize_nulls :: "table \<Rightarrow> string \<Rightarrow> string list \<Rightarrow> table" where
  "normalize_nulls t col nulls =
     (if nulls = [] then t
      else assign_col t col
             (map (\<lambda>(i, v). (i, case v of None \<Rightarrow> None
                                 | Some s \<Rightarrow> if s \<in> set nulls then None else Some s))
                (get_col t col)))"

text \<open>
  Modelled from the spec: step 2 of \<^verbatim>\<open>data_utils.process_field\<close>, what the rule says
  about the non-null values. Enumerated values are compared case-insensitively; a pattern
  is matched at the start of the value, as the \<^verbatim>\<open>str.match\<close> of the notebook's own
  predicates does; a predicate is called; a date field is valid where it parses.
\<close>

definition validity ::
  "(string \<Rightarrow> timestamp option) \<Rightarrow> params \<Rightarrow> string series \<Rightarrow> bool series" where
  "validity parse p ser =
     (case valid_values p of
        Some vals \<Rightarrow> str_op (\<lambda>s. lower s \<in> set (map lower vals)) ser
      | None \<Rightarrow>
          (case validation p of
             Some (Regex pat) \<Rightarrow> str_match pat ser
           | Some (Lambda f) \<Rightarrow> f ser
           | None \<Rightarrow>
               if date_field p then str_op (\<lambda>s. parse s \<noteq> None) ser
               else str_op (\<lambda>s. True) ser))"

text \<open>
  Modelled from the spec: the mask of step 2 over all rows. The rule holds of the value, or
  the value is null and the field is not mandatory; a null in a mandatory field fails.
\<close>

definition mask :: "bool \<Rightarrow> string series \<Rightarrow> bool series \<Rightarrow> (nat \<times> bool) list" where
  "mask mandatory ser valid =
     map (\<lambda>(i, v). (i, case v of None \<Rightarrow> \<not> mandatory | Some s \<Rightarrow> ser_at valid i = Some True)) ser"

text \<open>
  Modelled from the spec: step 3 of \<^verbatim>\<open>data_utils.process_field\<close>, the labels where the
  mask is false.
\<close>

definition failing :: "(nat \<times> bool) list \<Rightarrow> nat set" where
  "failing m = set (map fst (filter (\<lambda>(i, ok). \<not> ok) m))"

text \<open>
  The shadow column of a field: \<^verbatim>\<open>[col_name]_orig\<close>, as the docstring of
  \<^verbatim>\<open>process_soft_rejects\<close> names it.
\<close>

definition shadow :: "string \<Rightarrow> string" where
  "shadow col = col @ ''_orig''"

text \<open>
  Modelled from the spec: step 5 of \<^verbatim>\<open>data_utils.process_field\<close>, for a field that is
  not mandatory. In each failing row the value moves to the shadow column and the field
  becomes null. The shadow column is created, null everywhere else, when the first reject
  of the field arrives.
\<close>

definition null_rejected :: "table \<Rightarrow> string \<Rightarrow> nat set \<Rightarrow> table" where
  "null_rejected t col ids =
     (if ids = {} then t
      else t\<lparr>columns := add_column (columns t) (shadow col),
             rows := map (\<lambda>(i, r). (i,
                       if i \<in> ids then r(shadow col := cell t r col, col := None)
                       else r(shadow col := cell t r (shadow col)))) (rows t)\<rparr>)"

text \<open>
  Modelled from the spec: step 6 of \<^verbatim>\<open>data_utils.process_field\<close>. Each transform is
  applied to the current values of the column; its result overwrites the column or goes to
  the new column named with it.
\<close>

definition apply_post ::
  "string \<Rightarrow> string option \<times> (string series \<Rightarrow> string series) \<Rightarrow> table \<Rightarrow> table" where
  "apply_post col pp t =
     assign_col t (case fst pp of None \<Rightarrow> col | Some new_col \<Rightarrow> new_col) (snd pp (get_col t col))"

text \<open>
  Modelled from the spec: step 7 of \<^verbatim>\<open>data_utils.process_field\<close>. Each generator
  receives the table and the current values of the column (the parsed dates, for a date
  field) and writes its columns.
\<close>

definition gen_input :: "(string \<Rightarrow> timestamp option) \<Rightarrow> params \<Rightarrow> string series \<Rightarrow> val series" where
  "gen_input parse p ser =
     (if date_field p
      then map (\<lambda>(i, v). (i, case v of None \<Rightarrow> None | Some s \<Rightarrow> map_option Dt (parse s))) ser
      else str_op Str ser)"

text \<open>
  Modelled from the spec: step 7 of \<^verbatim>\<open>data_utils.process_field\<close> for one generator,
  which is called as \<^verbatim>\<open>generator(df, values)\<close>.
\<close>

definition apply_gen ::
  "(string \<Rightarrow> timestamp option) \<Rightarrow> params \<Rightarrow> string \<Rightarrow> (table \<Rightarrow> val series \<Rightarrow> table) \<Rightarrow>
     table \<Rightarrow> table" where
  "apply_gen parse p col g t = g t (gen_input parse p (get_col t col))"

text \<open>
  Modelled from the spec: \<^verbatim>\<open>data_utils.process_field\<close>, steps 1 to 8 in order. A mandatory
  field only records its rejects (step 4: the caller removes the rows); step 8 drops the
  source column when the rule asks for it.
\<close>

definition process_field ::
  "(string \<Rightarrow> timestamp option) \<Rightarrow> bool \<Rightarrow> table \<Rightarrow> string \<Rightarrow> rejects \<Rightarrow> params \<Rightarrow>
     table \<times> rejects" where
  "process_field parse mandatory df col rej p =
     (let t1 = normalize_nulls df col (other_nulls p);
          ser = get_col t1 col;
          ids = failing (mask mandatory ser (validity parse p ser));
          t5 = (if mandatory then t1 else null_rejected t1 col ids);
          t6 = fold (apply_post col) (post_process p) t5;
          t7 = fold (apply_gen parse p col) (generated_cols p) t6;
          t8 = (if drop_field p then drop_col t7 col else t7)
      in (t8, add_rejects rej col ids))"

text \<open>
  The loop of both phases,
  \<^verbatim>\<open>for field, params in fields.items(): data_utils.process_field(df, field, rejects, **params)\<close>:
  the rules are processed in order, against one table and one reject record.
\<close>

definition process_fields ::
  "(string \<Rightarrow> timestamp option) \<Rightarrow> bool \<Rightarrow> (string \<times> params) list \<Rightarrow> table \<times> rejects \<Rightarrow>
     table \<times> rejects" where
  "process_fields parse mandatory rules st =
     fold (\<lambda>(field, p) (df, rej). process_field parse mandatory df field rej p) rules st"

section \<open>The hard-reject phase\<close>

text \<open>\<^verbatim>\<open>id_val = lambda series: series.str.isdigit()\<close>\<close>

definition id_val :: "string series \<Rightarrow> bool series" where
  "id_val series = str_isdigit series"

text \<open>\<^verbatim>\<open>case_number_val = lambda series: series.str.slice(0,2).str.match(MY_REGX.TWO_LETTERS)\<close>\<close>

definition case_number_val :: "string series \<Rightarrow> bool series" where
  "case_number_val series = str_match TWO_LETTERS (str_slice 0 2 series)"

text \<open>
  \<^verbatim>\<open>dates.dt.year\<close> and \<^verbatim>\<open>dates.dt.month\<close>: a date that is null has no year and no
  month.
\<close>

definition dt_year :: "val series \<Rightarrow> nat series" where
  "dt_year dates = map (\<lambda>(i, v). (i, case v of Some (Dt d) \<Rightarrow> Some (ts_year d) | _ \<Rightarrow> None)) dates"

definition dt_month :: "val series \<Rightarrow> nat series" where
  "dt_month dates = map (\<lambda>(i, v). (i, case v of Some (Dt d) \<Rightarrow> Some (ts_month d) | _ \<Rightarrow> None)) dates"

text \<open>
  \<^verbatim>\<open>.astype(str)\<close> on such a series. Without a null the series holds integers, written
  as \<^verbatim>\<open>2019\<close>. With a null anywhere it holds floats: a number is written as \<^verbatim>\<open>2019.0\<close>
  and the null as the string \<^verbatim>\<open>nan\<close>.
\<close>

definition astype_str :: "nat series \<Rightarrow> string series" where
  "astype_str ser =
     (if list_ex (\<lambda>(i, v). v = None) ser
      then map (\<lambda>(i, v). (i, Some (case v of None \<Rightarrow> ''nan'' | Some n \<Rightarrow> str_of_nat n @ ''.0''))) ser
      else str_op str_of_nat ser)"

text \<open>
  \<^verbatim>\<open>def date_yr_mo(df, dates): df['year'] = dates.dt.year.astype(str); df['month'] = dates.dt.month.astype(str)\<close>
\<close>

definition date_yr_mo :: "table \<Rightarrow> val series \<Rightarrow> table" where
  "date_yr_mo df dates =
     (let df = assign_col df ''year'' (astype_str (dt_year dates))
      in assign_col df ''month'' (astype_str (dt_month dates)))"

definition nonnull_fields :: "(string \<times> params) list" where
  "nonnull_fields =
     [(''id'', no_params\<lparr>validation := Some (Lambda id_val)\<rparr>),
      (''case_number'', no_params\<lparr>validation := Some (Lambda case_number_val)\<rparr>),
      (''date'', no_params\<lparr>date_field := True, other_nulls := [''0000-00-00''],
                            generated_cols := [date_yr_mo]\<rparr>)]"

text \<open>
  The removal loop:
  \<^verbatim>\<open>for _, ids in hard_rejects.items(): if len(ids) > 0: df_filt = df_filt.loc[~df_filt.index.isin(ids)]\<close>
\<close>

fun filter_rejects :: "table \<Rightarrow> rejects \<Rightarrow> table" where
  "filter_rejects df_filt [] = df_filt"
| "filter_rejects df_filt ((c, ids) # rest) =
     filter_rejects (if ids \<noteq> {} then loc_not_isin df_filt ids else df_filt) rest"

text \<open>
  \<^verbatim>\<open>process_hard_rejects(df)\<close>. The function works on \<^verbatim>\<open>df.copy()\<close>; on values the copy is
  the table itself (the section on the store of tables tells the two objects apart). The
  call \<^verbatim>\<open>data_utils.process_field(df_filt, field, hard_rejects, **params)\<close> names no
  mandatory flag, and the processor is not among the sources, so
  \<open>process_hard_rejects_with\<close> takes as a parameter the flag that the processor works with.
  With \<open>False\<close> the call means what the same call means in the soft-reject phase.
\<close>

definition process_hard_rejects_with ::
  "(string \<Rightarrow> timestamp option) \<Rightarrow> bool \<Rightarrow> table \<Rightarrow> table \<times> rejects" where
  "process_hard_rejects_with parse mandatory df =
     (let df_filt = df;
          (df_filt, hard_rejects) = process_fields parse mandatory nonnull_fields (df_filt, []);
          df_filt = filter_rejects df_filt hard_rejects
      in (df_filt, hard_rejects))"

text \<open>
  Modelled from the spec: the flag of the hard-reject phase. The hard-reject orchestrator of
  the specification runs \<^verbatim>\<open>data_utils.process_field\<close> over the mandatory field set, so
  \<open>process_hard_rejects\<close> is the phase with the flag set; the rest of the function is the
  notebook's.
\<close>

definition process_hard_rejects ::
  "(string \<Rightarrow> timestamp option) \<Rightarrow> table \<Rightarrow> table \<times> rejects" where
  "process_hard_rejects parse df =
     (let df_filt = df;
          (df_filt, hard_rejects) = process_fields parse True nonnull_fields (df_filt, []);
          df_filt = filter_rejects df_filt hard_rejects
      in (df_filt, hard_rejects))"

section \<open>The soft-reject phase\<close>

text \<open>\<^verbatim>\<open>capitalize_first = lambda series: series.str.title()\<close>\<close>

definition capitalize_first :: "string series \<Rightarrow> string series" where
  "capitalize_first series = str_title series"

text \<open>\<^verbatim>\<open>upper_case = lambda series: series.str.upper()\<close>\<close>

definition upper_case :: "string series \<Rightarrow> string series" where
  "upper_case series = str_upper series"

text \<open>
  \<^verbatim>\<open>ser.str.extract(pat, expand=True)\<close> gives one column per group, from the first match
  found by searching; \<open>str_extract pat k\<close> is the column of group \<open>k\<close>. No match, a group
  that took no part in the match, and a value that is not a string give null.
\<close>

definition str_extract :: "pattern \<Rightarrow> nat \<Rightarrow> val series \<Rightarrow> string series" where
  "str_extract pat k ser =
     map (\<lambda>(i, v). (i, case v of
                        Some (Str s) \<Rightarrow>
                          (case re_search pat s of None \<Rightarrow> None | Some caps \<Rightarrow> map_of caps k)
                      | _ \<Rightarrow> None)) ser"

text \<open>
  \<^verbatim>\<open>df[['house_num', 'street_addr']] = blocks.str.extract(MY_REGX.BLOCK, expand=True)\<close>
\<close>

definition block_num_addr :: "table \<Rightarrow> val series \<Rightarrow> table" where
  "block_num_addr df blocks =
     (let df = assign_col df ''house_num'' (str_extract BLOCK 1 blocks)
      in assign_col df ''street_addr'' (str_extract BLOCK 2 blocks))"

definition primary_type_post :: "(string option \<times> (string series \<Rightarrow> string series)) list" where
  "primary_type_post = [(None, capitalize_first)]"

text \<open>
  \<^verbatim>\<open>description_val = lambda series: series.str.match(MY_REGX.DESCRIPTION, na=False) & series.str.len().le(50)\<close>
\<close>

definition description_val :: "string series \<Rightarrow> bool series" where
  "description_val series =
     series_and (str_match_na_false DESCRIPTION series) (series_le (str_len series) 50)"

definition description_post :: "(string option \<times> (string series \<Rightarrow> string series)) list" where
  "description_post = [(None, capitalize_first)]"

definition location_description_val :: "string series \<Rightarrow> bool series" where
  "location_description_val series =
     series_and (str_match_na_false LOCATION_DESCRIPTION series) (series_le (str_len series) 50)"

definition location_description_post ::
  "(string option \<times> (string series \<Rightarrow> string series)) list" where
  "location_description_post = [(None, capitalize_first)]"

definition tf_valid :: "string list" where
  "tf_valid = [''true'', ''false'']"

text \<open>\<^verbatim>\<open>valid_int = lambda series: series.str.isdigit()\<close>\<close>

definition valid_int :: "string series \<Rightarrow> bool series" where
  "valid_int series = str_isdigit series"

text \<open>
  \<^verbatim>\<open>df[['latitude','longitude']] = locations.str.extract(MY_REGX.LOCATION, expand=True)\<close>
\<close>

definition location_lat_lon :: "table \<Rightarrow> val series \<Rightarrow> table" where
  "location_lat_lon df locations =
     (let df = assign_col df ''latitude'' (str_extract LOCATION 1 locations)
      in assign_col df ''longitude'' (str_extract LOCATION 2 locations))"

text \<open>
  \<^verbatim>\<open>zip_to_five(zips)\<close>: \<^verbatim>\<open>np.select\<close> takes, value by value, the choice of the first
  condition that holds (\<^verbatim>\<open>'0' + zips\<close> at length 4, \<^verbatim>\<open>zips\<close> at length 5) and the default
  \<^verbatim>\<open>np.nan\<close> where none holds; a null has no length, so it stays null.
\<close>

definition zip_to_five :: "string series \<Rightarrow> string series" where
  "zip_to_five zips =
     map (\<lambda>(i, v). (i, case v of
                        None \<Rightarrow> None
                      | Some s \<Rightarrow>
                          if length s = 4 then Some (''0'' @ s)
                          else if length s = 5 then Some s
                          else None)) zips"

definition post_zip_codes :: "(string option \<times> (string series \<Rightarrow> string series)) list" where
  "post_zip_codes = [(None, \<lambda>series. zip_to_five series)]"

definition nullable_fields :: "(string \<times> params) list" where
  "nullable_fields =
     [(''block'', no_params\<lparr>validation := Some (Regex BLOCK), generated_cols := [block_num_addr]\<rparr>),
      (''iucr'', no_params\<lparr>validation := Some (Regex IUCR)\<rparr>),
      (''primary_type'', no_params\<lparr>validation := Some (Regex PRIMARY_TYPE),
                                    post_process := primary_type_post\<rparr>),
      (''description'', no_params\<lparr>validation := Some (Lambda description_val),
                                   post_process := description_post\<rparr>),
      (''location_description'', no_params\<lparr>validation := Some (Lambda location_description_val),
                                            post_process := location_description_post\<rparr>),
      (''arrest'', no_params\<lparr>valid_values := Some tf_valid\<rparr>),
      (''domestic'', no_params\<lparr>valid_values := Some tf_valid\<rparr>),
      (''beat'', no_params\<lparr>validation := Some (Lambda valid_int)\<rparr>),
      (''district'', no_params\<lparr>validation := Some (Lambda valid_int)\<rparr>),
      (''ward'', no_params\<lparr>validation := Some (Lambda valid_int)\<rparr>),
      (''community_area'', no_params\<lparr>validation := Some (Lambda valid_int)\<rparr>),
      (''location'', no_params\<lparr>validation := Some (Regex LOCATION),
                                generated_cols := [location_lat_lon], drop_field := True\<rparr>),
      (''zip_codes'', no_params\<lparr>validation := Some (Regex ZIP_CODES),
                                 post_process := post_zip_codes\<rparr>)]"

text \<open>
  \<^verbatim>\<open>process_soft_rejects(df_filt)\<close> changes \<^verbatim>\<open>df_filt\<close> in place and returns the reject
  record; here it returns the table after the changes as well.
\<close>

definition process_soft_rejects ::
  "(string \<Rightarrow> timestamp option) \<Rightarrow> table \<Rightarrow> table \<times> rejects" where
  "process_soft_rejects parse df_filt = process_fields parse False nullable_fields (df_filt, [])"

section \<open>The reject analyzer and the reports\<close>

text \<open>
  Modelled from the spec: the reject analyzer (\<^verbatim>\<open>data_utils.analyze_hard_and_soft_rejects\<close>
  is not among the sources), part (a): the set of all the row labels of a reject record.
\<close>

definition unique_rejects :: "rejects \<Rightarrow> nat set" where
  "unique_rejects rej = \<Union> (set (map snd rej))"

text \<open>
  Modelled from the spec: the reject analyzer, part (b): for a label, the columns that
  rejected it, in the order of the record.
\<close>

definition offending :: "rejects \<Rightarrow> nat \<Rightarrow> string list" where
  "offending rej i = map fst (filter (\<lambda>(c, ids). i \<in> ids) rej)"

text \<open>
  Modelled from the spec: \<^verbatim>\<open>data_utils.analyze_hard_and_soft_rejects\<close>, which returns the
  labels touched in each phase.
\<close>

definition analyze_hard_and_soft_rejects :: "rejects \<Rightarrow> rejects \<Rightarrow> nat set \<times> nat set" where
  "analyze_hard_and_soft_rejects hard_rejects soft_rejects =
     (unique_rejects hard_rejects, unique_rejects soft_rejects)"

text \<open>\<^verbatim>\<open>sep.join(xs)\<close>\<close>

fun join :: "string \<Rightarrow> string list \<Rightarrow> string" where
  "join sep [] = []"
| "join sep [x] = x"
| "join sep (x # xs) = x @ sep @ join sep xs"

text \<open>
  Modelled from the spec: a report of \<^verbatim>\<open>data_utils.generate_reject_dfs\<close> (not among the
  sources), the rejected rows of a table, each with the columns that rejected it (column
  \<^verbatim>\<open>cols\<close>, which the notebook reads) and the name of the file of the chunk.
\<close>

definition report :: "table \<Rightarrow> string \<Rightarrow> rejects \<Rightarrow> nat set \<Rightarrow> table" where
  "report t file_name rej unq =
     (let sel = loc_isin t unq
      in sel\<lparr>columns := add_column (add_column (columns sel) ''cols'') ''file_name'',
              rows := map (\<lambda>(i, r). (i, r(''cols'' \<mapsto> join '','' (offending rej i),
                                          ''file_name'' \<mapsto> file_name))) (rows sel)\<rparr>)"

text \<open>
  Modelled from the spec: \<^verbatim>\<open>data_utils.generate_reject_dfs\<close>. The hard-reject report takes
  its rows from the original table, the soft-reject report from the table after the hard
  filter, shadow columns included.
\<close>

definition generate_reject_dfs ::
  "table \<Rightarrow> table \<Rightarrow> string \<Rightarrow> rejects \<Rightarrow> nat set \<Rightarrow> rejects \<Rightarrow> nat set \<Rightarrow> table \<times> table" where
  "generate_reject_dfs df df_filt file_name hard_rejects unq_hard_rejects soft_rejects
       unq_soft_rejects =
     (report df file_name hard_rejects unq_hard_rejects,
      report df_filt file_name soft_rejects unq_soft_rejects)"

section \<open>Cleaning one file\<close>

text \<open>
  The cell of the notebook that cleans a chunk: both phases, the analysis, the two reports,
  and the clean table, which keeps the columns without \<^verbatim>\<open>_orig\<close> in their name.
\<close>

definition scrub ::
  "(string \<Rightarrow> timestamp option) \<Rightarrow> table \<Rightarrow> string \<Rightarrow> table \<times> table \<times> table" where
  "scrub parse df file_name =
     (let (df_filt, hard_rejects) = process_hard_rejects parse df;
          (df_filt, soft_rejects) = process_soft_rejects parse df_filt;
          (unq_hard_rejects, unq_soft_rejects) =
             analyze_hard_and_soft_rejects hard_rejects soft_rejects;
          (hard_rej_df, soft_rej_df) =
             generate_reject_dfs df df_filt file_name hard_rejects unq_hard_rejects
               soft_rejects unq_soft_rejects;
          clean_cols = filter (\<lambda>col. \<not> contains ''_orig'' col) (columns df_filt)
      in (select_cols df_filt clean_cols, hard_rej_df, soft_rej_df))"

section \<open>The phases on a store of tables\<close>

text \<open>
  A \<^verbatim>\<open>DataFrame\<close> is an object: two names may denote the same table, and a change made
  through one is seen through the other. The store holds the tables that exist, a name is
  a position in the store (every name the notebook uses denotes an object, so it is below
  the length of the store). \<^verbatim>\<open>df.copy()\<close> and \<^verbatim>\<open>df.loc[...]\<close> make a new object;
  \<^verbatim>\<open>process_field\<close> changes the object it is given.
\<close>

type_synonym store = "table list"

definition copy :: "store \<Rightarrow> nat \<Rightarrow> store \<times> nat" where
  "copy s a = (s @ [s ! a], length s)"

definition process_field_at ::
  "(string \<Rightarrow> timestamp option) \<Rightarrow> bool \<Rightarrow> store \<Rightarrow> nat \<Rightarrow> string \<Rightarrow> rejects \<Rightarrow> params \<Rightarrow>
     store \<times> rejects" where
  "process_field_at parse mandatory s a col rej p =
     (let (t, rej') = process_field parse mandatory (s ! a) col rej p in (s[a := t], rej'))"

definition process_fields_at ::
  "(string \<Rightarrow> timestamp option) \<Rightarrow> bool \<Rightarrow> (string \<times> params) list \<Rightarrow> nat \<Rightarrow>
     store \<times> rejects \<Rightarrow> store \<times> rejects" where
  "process_fields_at parse mandatory rules a st =
     fold (\<lambda>(field, p) (s, rej). process_field_at parse mandatory s a field rej p) rules st"

fun filter_rejects_at :: "store \<Rightarrow> nat \<Rightarrow> rejects \<Rightarrow> store \<times> nat" where
  "filter_rejects_at s df_filt [] = (s, df_filt)"
| "filter_rejects_at s df_filt ((c, ids) # rest) =
     (if ids \<noteq> {}
      then filter_rejects_at (s @ [loc_not_isin (s ! df_filt) ids]) (length s) rest
      else filter_rejects_at s df_filt rest)"

text \<open>
  \<^verbatim>\<open>process_hard_rejects(df)\<close> on the store: \<^verbatim>\<open>df_filt = df.copy()\<close>, the mandatory
  rules on \<^verbatim>\<open>df_filt\<close>, the removal loop; it returns the name of the filtered table and
  the reject record.
\<close>

definition process_hard_rejects_at ::
  "(string \<Rightarrow> timestamp option) \<Rightarrow> store \<Rightarrow> nat \<Rightarrow> store \<times> nat \<times> rejects" where
  "process_hard_rejects_at parse s df =
     (let (s, df_filt) = copy s df;
          (s, hard_rejects) = process_fields_at parse True nonnull_fields df_filt (s, []);
          (s, df_filt) = filter_rejects_at s df_filt hard_rejects
      in (s, df_filt, hard_rejects))"

text \<open>\<^verbatim>\<open>process_soft_rejects(df_filt)\<close> on the store: it returns the reject record only.\<close>

definition process_soft_rejects_at ::
  "(string \<Rightarrow> timestamp option) \<Rightarrow> store \<Rightarrow> nat \<Rightarrow> store \<times> rejects" where
  "process_soft_rejects_at parse s df_filt =
     process_fields_at parse False nullable_fields df_filt (s, [])"

section \<open>Two small chunks\<close>

text \<open>
  The columns that the notebook keeps (\<^verbatim>\<open>df = df[keep_cols]\<close>) and a small chunk with these
  columns, used to instantiate the theorems: row 0 is clean, rows 1 and 2 break a mandatory
  rule, rows 3 to 5 carry the zip codes of the examples. The parser of the example knows one
  date.
\<close>

definition keep_cols :: "string list" where
  "keep_cols =
     [''id'', ''case_number'', ''date'', ''block'', ''iucr'', ''primary_type'', ''description'',
      ''location_description'', ''arrest'', ''domestic'', ''beat'', ''district'', ''ward'',
      ''community_area'', ''location'', ''zip_codes'']"

definition parse_ex :: "string \<Rightarrow> timestamp option" where
  "parse_ex s =
     (if s = ''01/02/2019 10:00:00 AM'' then Some \<lparr>ts_year = 2019, ts_month = 1\<rparr> else None)"

definition df_ex :: table where
  "df_ex = \<lparr>columns = keep_cols,
     rows =
       [(0, [''id'' \<mapsto> ''1'', ''case_number'' \<mapsto> ''HY123456'',
             ''date'' \<mapsto> ''01/02/2019 10:00:00 AM'', ''location'' \<mapsto> ''(41.88, -87.62)'',
             ''zip_codes'' \<mapsto> ''6060'']),
        (1, [''id'' \<mapsto> ''2'', ''case_number'' \<mapsto> ''123456'',
             ''date'' \<mapsto> ''01/02/2019 10:00:00 AM'']),
        (2, [''id'' \<mapsto> ''3a'', ''case_number'' \<mapsto> ''HY000003'',
             ''date'' \<mapsto> ''01/02/2019 10:00:00 AM'']),
        (3, [''id'' \<mapsto> ''4'', ''case_number'' \<mapsto> ''HZ000004'',
             ''date'' \<mapsto> ''01/02/2019 10:00:00 AM'', ''zip_codes'' \<mapsto> ''606010'']),
        (4, [''id'' \<mapsto> ''5'', ''case_number'' \<mapsto> ''HZ000005'',
             ''date'' \<mapsto> ''01/02/2019 10:00:00 AM'', ''zip_codes'' \<mapsto> ''606'']),
        (5, [''id'' \<mapsto> ''6'', ''case_number'' \<mapsto> ''HZ000006'',
             ''date'' \<mapsto> ''01/02/2019 10:00:00 AM'', ''zip_codes'' \<mapsto> ''60601''])]\<rparr>"


text \<open>The chunk after the hard-reject phase, as the notebook passes it to the soft-reject phase.\<close>

definition df_filt_ex :: table where
  "df_filt_ex = fst (process_hard_rejects parse_ex df_ex)"

section \<open>Notions used in the proofs\<close>

text \<open>
  Two tables agree on a column: both have it or both lack it, and they hold the same cell
  under it at every label.
\<close>

definition same_on :: "table \<Rightarrow> table \<Rightarrow> string \<Rightarrow> bool" where
  "same_on t' t c \<longleftrightarrow>
     (c \<in> set (columns t') \<longleftrightarrow> c \<in> set (columns t)) \<and> (\<forall>i. cell_at t' i c = cell_at t i c)"

text \<open>
  A generator keeps the index of the table and leaves every column outside \<open>W\<close> as it
  was.
\<close>

definition gen_ok :: "(table \<Rightarrow> val series \<Rightarrow> table) \<Rightarrow> string set \<Rightarrow> bool" where
  "gen_ok g W \<longleftrightarrow>
     (\<forall>t ser. index (g t ser) = index t \<and> (\<forall>c. c \<notin> W \<longrightarrow> same_on (g t ser) t c))"

text \<open>
  The column that a post-processing entry writes.
\<close>

definition target :: "string \<Rightarrow> string option \<times> (string series \<Rightarrow> string series) \<Rightarrow> string" where
  "target col pp = (case fst pp of None \<Rightarrow> col | Some new_col \<Rightarrow> new_col)"

text \<open>
  A rule keeps the index of the table and leaves every column outside \<open>W\<close> as it was.
\<close>

definition touches ::
  "(string \<Rightarrow> timestamp option) \<Rightarrow> bool \<Rightarrow> string set \<Rightarrow> string \<times> params \<Rightarrow> bool" where
  "touches parse mandatory W rule \<longleftrightarrow>
     (\<forall>df rej.
        index (fst (process_field parse mandatory df (fst rule) rej (snd rule))) = index df \<and>
        (\<forall>c. c \<notin> W \<longrightarrow>
           same_on (fst (process_field parse mandatory df (fst rule) rej (snd rule))) df c))"

text \<open>
  The columns that the rule of a field of the notebook may write: the field, its shadow
  column and the columns of its generator.
\<close>

definition writes :: "string \<Rightarrow> string set" where
  "writes f =
     {f, shadow f} \<union>
     (if f = ''date'' then {''year'', ''month''}
      else if f = ''block'' then {''house_num'', ''street_addr''}
      else if f = ''location'' then {''latitude'', ''longitude''}
      else {})"

text \<open>
  What the three mandatory rules reject, value by value: a null, or an \<^verbatim>\<open>id\<close> that is not
  all digits.
\<close>

definition invalid_id :: "string option \<Rightarrow> bool" where
  "invalid_id v = (case v of None \<Rightarrow> True | Some s \<Rightarrow> \<not> isdigit s)"

text \<open>
  A null, or a case number whose first two characters are not two letters.
\<close>

definition invalid_case_number :: "string option \<Rightarrow> bool" where
  "invalid_case_number v = (case v of None \<Rightarrow> True | Some s \<Rightarrow> \<not> re_match TWO_LETTERS (take 2 s))"

text \<open>
  A null, the zero date, or a date that does not parse.
\<close>

definition invalid_date :: "(string \<Rightarrow> timestamp option) \<Rightarrow> string option \<Rightarrow> bool" where
  "invalid_date parse v =
     (case v of None \<Rightarrow> True | Some s \<Rightarrow> s = ''0000-00-00'' \<or> parse s = None)"

text \<open>
  What the three rules of the hard-reject phase reject when the processor works with the
  flag \<open>m\<close>: a null is rejected exactly under the flag, and a value when it breaks the rule.
  The zero date is a null once the rule of \<^verbatim>\<open>date\<close> has normalized it.
\<close>

definition rejects_id :: "bool \<Rightarrow> string option \<Rightarrow> bool" where
  "rejects_id m v = (case v of None \<Rightarrow> m | Some s \<Rightarrow> \<not> isdigit s)"

definition rejects_case_number :: "bool \<Rightarrow> string option \<Rightarrow> bool" where
  "rejects_case_number m v = (case v of None \<Rightarrow> m | Some s \<Rightarrow> \<not> re_match TWO_LETTERS (take 2 s))"

definition rejects_date :: "(string \<Rightarrow> timestamp option) \<Rightarrow> bool \<Rightarrow> string option \<Rightarrow> bool" where
  "rejects_date parse m v =
     (case v of None \<Rightarrow> m | Some s \<Rightarrow> if s = ''0000-00-00'' then m else parse s = None)"

text \<open>
  The hard-reject record read off a table: for each mandatory field, the labels of the
  table whose value the rule rejects.
\<close>

definition hard_rejects_of :: "(string \<Rightarrow> timestamp option) \<Rightarrow> table \<Rightarrow> rejects" where
  "hard_rejects_of parse df =
     [(''id'', {i \<in> set (index df). invalid_id (cell_at df i ''id'')}),
      (''case_number'', {i \<in> set (index df). invalid_case_number (cell_at df i ''case_number'')}),
      (''date'', {i \<in> set (index df). invalid_date parse (cell_at df i ''date'')})]"

text \<open>
  The table after the rule of \<^verbatim>\<open>date\<close>: zero dates are null, and the year and the month
  have their columns.
\<close>

definition dated :: "(string \<Rightarrow> timestamp option) \<Rightarrow> table \<Rightarrow> table" where
  "dated parse df =
     fst (process_field parse True df ''date'' []
            (no_params\<lparr>date_field := True, other_nulls := [''0000-00-00''],
                        generated_cols := [date_yr_mo]\<rparr>))"

text \<open>
  Before the rule of a field has run: the table has no shadow column for it and the record
  has no reject under it.
\<close>

definition shadow_fresh :: "table \<Rightarrow> rejects \<Rightarrow> string \<Rightarrow> bool" where
  "shadow_fresh df rej f \<longleftrightarrow> shadow f \<notin> set (columns df) \<and> rejected rej f = {}"

text \<open>
  After the rule of a field has run: the shadow column holds a value exactly at the rejected
  labels, and there the field is null.
\<close>

definition shadow_inv :: "table \<Rightarrow> rejects \<Rightarrow> string \<Rightarrow> bool" where
  "shadow_inv df rej f \<longleftrightarrow>
     (\<forall>i\<in>set (index df).
        (cell_at df i (shadow f) \<noteq> None \<longleftrightarrow> i \<in> rejected rej f) \<and>
        (i \<in> rejected rej f \<longrightarrow> cell_at df i f = None))"

text \<open>
  A transform gives null wherever its argument is null.
\<close>

definition null_pres :: "(string series \<Rightarrow> string series) \<Rightarrow> bool" where
  "null_pres g \<longleftrightarrow> (\<forall>ser i. ser_at ser i = None \<longrightarrow> ser_at (g ser) i = None)"

text \<open>
  The rule of a field leaves the other columns alone and takes a table where the field is
  fresh to one where the invariant of the field holds.
\<close>

definition step_ok :: "(string \<Rightarrow> timestamp option) \<Rightarrow> string \<times> params \<Rightarrow> bool" where
  "step_ok parse r \<longleftrightarrow>
     touches parse False (writes (fst r)) r \<and>
     (\<forall>df rej. distinct (index df) \<and> shadow_fresh df rej (fst r) \<longrightarrow>
        shadow_inv (fst (process_field parse False df (fst r) rej (snd r)))
          (snd (process_field parse False df (fst r) rej (snd r))) (fst r))"

text \<open>
  The hard-reject phase in the words of the specification, to compare with
  \<open>process_hard_rejects\<close>: the mandatory rules run on the table, then the rows are removed
  once, by the union of all the reject sets.
\<close>

definition process_hard_rejects_spec ::
  "(string \<Rightarrow> timestamp option) \<Rightarrow> table \<Rightarrow> table \<times> rejects" where
  "process_hard_rejects_spec parse df =
     (let (df_filt, hard_rejects) = process_fields parse True nonnull_fields (df, [])
      in (loc_not_isin df_filt (unique_rejects hard_rejects), hard_rejects))"

text \<open>
  What \<open>zip_to_five\<close> makes of a value.
\<close>

definition zip_value :: "string \<Rightarrow> string option" where
  "zip_value s =
     (if length s = 4 then Some (''0'' @ s) else if length s = 5 then Some s else None)"

text \<open>
  Group \<open>k\<close> of the first match of a pattern in a string.
\<close>

definition group :: "pattern \<Rightarrow> nat \<Rightarrow> string \<Rightarrow> string option" where
  "group pat k s = (case re_search pat s of None \<Rightarrow> None | Some caps \<Rightarrow> map_of caps k)"

text \<open>
  The soft-reject rules split at the last two: the eleven rules before \<^verbatim>\<open>location\<close>, the
  rule of \<^verbatim>\<open>location\<close> and the rule of \<^verbatim>\<open>zip_codes\<close>, and the states in between.
\<close>

definition rules_before_location :: "(string \<times> params) list" where
  "rules_before_location = butlast (butlast nullable_fields)"

definition location_rule :: params where
  "location_rule = no_params\<lparr>validation := Some (Regex LOCATION),
     generated_cols := [location_lat_lon], drop_field := True\<rparr>"

definition zip_codes_rule :: params where
  "zip_codes_rule = no_params\<lparr>validation := Some (Regex ZIP_CODES), post_process := post_zip_codes\<rparr>"

definition before_location :: "(string \<Rightarrow> timestamp option) \<Rightarrow> table \<Rightarrow> table \<times> rejects" where
  "before_location parse df = process_fields parse False rules_before_location (df, [])"

definition before_zip_codes :: "(string \<Rightarrow> timestamp option) \<Rightarrow> table \<Rightarrow> table \<times> rejects" where
  "before_zip_codes parse df =
     process_field parse False (fst (before_location parse df)) ''location''
       (snd (before_location parse df)) location_rule"

text \<open>
  The hard-reject phase with the mandatory rules in another order: \<open>process_hard_rejects\<close>
  is the case of \<open>nonnull_fields\<close>.
\<close>

definition hard_phase_in_order ::
  "(string \<Rightarrow> timestamp option) \<Rightarrow> (string \<times> params) list \<Rightarrow> table \<Rightarrow> table \<times> rejects" where
  "hard_phase_in_order parse rules df =
     (let (df_filt, hard_rejects) = process_fields parse True rules (df, [])
      in (filter_rejects df_filt hard_rejects, hard_rejects))"

text \<open>
  The reject set of a mandatory field, read off the original table.
\<close>

definition hard_set :: "(string \<Rightarrow> timestamp option) \<Rightarrow> table \<Rightarrow> string \<Rightarrow> nat set" where
  "hard_set parse df f =
     (if f = ''id'' then {i \<in> set (index df). invalid_id (cell_at df i ''id'')}
      else if f = ''case_number''
      then {i \<in> set (index df). invalid_case_number (cell_at df i ''case_number'')}
      else {i \<in> set (index df). invalid_date parse (cell_at df i ''date'')})"

section \<open>Tables, series and the field processor\<close>

lemma map_of_map_label:
  "map_of (map (\<lambda>(i, r). (i, f i r)) xs) i = map_option (f i) (map_of xs i)"
  by (induction xs) auto

lemma index_mem: "i \<in> set (index t) \<longleftrightarrow> map_of (rows t) i \<noteq> None"
  by (simp add: index_def map_of_eq_None_iff)

lemma cell_at_outside: "i \<notin> set (index t) \<Longrightarrow> cell_at t i c = None"
  by (simp add: index_mem cell_at_def)

lemma cell_at_no_column: "c \<notin> set (columns t) \<Longrightarrow> cell_at t i c = None"
  by (simp add: cell_at_def cell_def split: option.splits)

lemma cell_at_row:
  "distinct (index t) \<Longrightarrow> (i, r) \<in> set (rows t) \<Longrightarrow> cell_at t i c = cell t r c"
  by (simp add: cell_at_def index_def)

lemma ser_at_get_col: "ser_at (get_col t c) i = cell_at t i c"
  by (simp add: ser_at_def get_col_def cell_at_def map_of_map_label split: option.splits)

lemma ser_at_map:
  "ser_at (map (\<lambda>(i, v). (i, f v)) ser) i = (case map_of ser i of None \<Rightarrow> None | Some v \<Rightarrow> f v)"
  by (simp add: ser_at_def map_of_map_label split: option.splits)

lemma ser_at_str_op: "ser_at (str_op f ser) i = map_option f (ser_at ser i)"
  by (simp add: str_op_def ser_at_map) (simp add: ser_at_def split: option.splits)

lemma index_assign_col [simp]: "index (assign_col t c ser) = index t"
  by (simp add: index_def assign_col_def comp_def case_prod_unfold)

lemma index_drop_col [simp]: "index (drop_col t c) = index t"
  by (simp add: index_def drop_col_def comp_def case_prod_unfold)

lemma index_loc_not_isin: "index (loc_not_isin t ids) = filter (\<lambda>i. i \<notin> ids) (index t)"
  by (simp add: index_def loc_not_isin_def filter_map comp_def case_prod_unfold)

lemma index_loc_isin: "index (loc_isin t ids) = filter (\<lambda>i. i \<in> ids) (index t)"
  by (simp add: index_def loc_isin_def filter_map comp_def case_prod_unfold)

lemma index_select_cols [simp]: "index (select_cols t cs) = index t"
  by (simp add: index_def select_cols_def comp_def case_prod_unfold)

lemma columns_assign_col: "set (columns (assign_col t c ser)) = insert c (set (columns t))"
  by (auto simp: assign_col_def add_column_def)

lemma cell_at_assign_col:
  "cell_at (assign_col t c ser) i c' =
     (if c' = c then (if i \<in> set (index t) then ser_at ser i else None) else cell_at t i c')"
  by (auto simp: cell_at_def assign_col_def cell_def add_column_def map_of_map_label index_mem
           split: option.splits)

lemma cell_at_drop_col:
  "cell_at (drop_col t c) i c' = (if c' = c then None else cell_at t i c')"
  by (auto simp: cell_at_def drop_col_def cell_def map_of_map_label split: option.splits)

lemma same_on_refl [simp]: "same_on t t c"
  by (simp add: same_on_def)

lemma same_on_trans: "same_on t'' t' c \<Longrightarrow> same_on t' t c \<Longrightarrow> same_on t'' t c"
  by (simp add: same_on_def)

lemma same_on_assign_col: "c' \<noteq> c \<Longrightarrow> same_on (assign_col t c ser) t c'"
  by (simp add: same_on_def cell_at_assign_col columns_assign_col)

lemma columns_drop_col: "set (columns (drop_col t c)) = set (columns t) - {c}"
  by (auto simp: drop_col_def)

lemma same_on_drop_col: "c' \<noteq> c \<Longrightarrow> same_on (drop_col t c) t c'"
  by (simp add: same_on_def cell_at_drop_col columns_drop_col)

lemma ser_at_map_strict:
  "f None = None \<Longrightarrow> ser_at (map (\<lambda>(i, v). (i, f v)) ser) i = f (ser_at ser i)"
  by (simp add: ser_at_map) (simp add: ser_at_def split: option.splits)

lemma index_normalize_nulls [simp]: "index (normalize_nulls t col nulls) = index t"
  by (simp add: normalize_nulls_def)

lemma same_on_normalize_nulls: "c \<noteq> col \<Longrightarrow> same_on (normalize_nulls t col nulls) t c"
  by (simp add: normalize_nulls_def same_on_assign_col)

lemma cell_at_normalize_nulls:
  "cell_at (normalize_nulls t col nulls) i col =
     (case cell_at t i col of None \<Rightarrow> None
      | Some s \<Rightarrow> if s \<in> set nulls then None else Some s)"
proof (cases "nulls = []")
  case True
  then show ?thesis by (simp add: normalize_nulls_def split: option.splits)
next
  case False
  have "ser_at (map (\<lambda>(i, v). (i, case v of None \<Rightarrow> None
            | Some s \<Rightarrow> if s \<in> set nulls then None else Some s)) (get_col t col)) i =
        (case cell_at t i col of None \<Rightarrow> None
         | Some s \<Rightarrow> if s \<in> set nulls then None else Some s)"
    by (subst ser_at_map_strict) (simp_all add: ser_at_get_col)
  with False show ?thesis
    by (simp add: normalize_nulls_def cell_at_assign_col cell_at_outside)
qed

lemma index_null_rejected [simp]: "index (null_rejected t col ids) = index t"
  by (simp add: index_def null_rejected_def comp_def case_prod_unfold)

lemma shadow_neq [simp]: "shadow col \<noteq> col" "col \<noteq> shadow col"
  by (simp_all add: shadow_def)

lemma columns_null_rejected:
  "set (columns (null_rejected t col ids)) =
     (if ids = {} then set (columns t) else insert (shadow col) (set (columns t)))"
  by (auto simp: null_rejected_def add_column_def)

lemma cell_at_null_rejected:
  "cell_at (null_rejected t col ids) i c =
     (if c = shadow col then (if i \<in> ids then cell_at t i col else cell_at t i (shadow col))
      else if c = col \<and> i \<in> ids then None
      else cell_at t i c)"
  by (auto simp: cell_at_def null_rejected_def cell_def add_column_def map_of_map_label
           split: option.splits)

lemma same_on_null_rejected:
  "c \<noteq> col \<Longrightarrow> c \<noteq> shadow col \<Longrightarrow> same_on (null_rejected t col ids) t c"
  by (simp add: same_on_def cell_at_null_rejected columns_null_rejected)

lemma apply_post_target: "apply_post col pp t = assign_col t (target col pp) (snd pp (get_col t col))"
  by (simp add: apply_post_def target_def)

lemma index_apply_post [simp]: "index (apply_post col pp t) = index t"
  by (simp add: apply_post_target)

lemma same_on_apply_post: "c \<noteq> target col pp \<Longrightarrow> same_on (apply_post col pp t) t c"
  by (simp add: apply_post_target same_on_assign_col)

lemma index_fold_apply_post [simp]: "index (fold (apply_post col) pps t) = index t"
  by (induction pps arbitrary: t) simp_all

lemma same_on_fold_apply_post:
  "c \<notin> target col ` set pps \<Longrightarrow> same_on (fold (apply_post col) pps t) t c"
proof (induction pps arbitrary: t)
  case Nil
  then show ?case by simp
next
  case (Cons pp pps)
  then have "same_on (fold (apply_post col) pps (apply_post col pp t)) (apply_post col pp t) c"
    and "same_on (apply_post col pp t) t c"
    by (simp_all add: same_on_apply_post)
  then show ?case by (simp add: same_on_trans)
qed

lemma index_apply_gen: "gen_ok g W \<Longrightarrow> index (apply_gen parse p col g t) = index t"
  by (simp add: gen_ok_def apply_gen_def)

lemma same_on_apply_gen: "gen_ok g W \<Longrightarrow> c \<notin> W \<Longrightarrow> same_on (apply_gen parse p col g t) t c"
  by (simp add: gen_ok_def apply_gen_def)

lemma index_fold_apply_gen:
  "\<forall>g\<in>set gs. gen_ok g W \<Longrightarrow> index (fold (apply_gen parse p col) gs t) = index t"
proof (induction gs arbitrary: t)
  case Nil
  then show ?case by simp
next
  case (Cons g gs)
  from Cons.prems have g: "gen_ok g W" and gs: "\<forall>g\<in>set gs. gen_ok g W"
    by simp_all
  show ?case
    using Cons.IH [OF gs] index_apply_gen [OF g] by simp
qed

lemma same_on_fold_apply_gen:
  "\<forall>g\<in>set gs. gen_ok g W \<Longrightarrow> c \<notin> W \<Longrightarrow> same_on (fold (apply_gen parse p col) gs t) t c"
proof (induction gs arbitrary: t)
  case Nil
  then show ?case by simp
next
  case (Cons g gs)
  from Cons.prems have g: "gen_ok g W" and gs: "\<forall>g\<in>set gs. gen_ok g W"
    by simp_all
  have "same_on (fold (apply_gen parse p col) gs (apply_gen parse p col g t))
               (apply_gen parse p col g t) c"
    by (rule Cons.IH [OF gs Cons.prems(2)])
  moreover have "same_on (apply_gen parse p col g t) t c"
    by (rule same_on_apply_gen [OF g Cons.prems(2)])
  ultimately show ?case by (simp add: same_on_trans)
qed

lemma index_process_field:
  "\<forall>g\<in>set (generated_cols p). gen_ok g W \<Longrightarrow>
   index (fst (process_field parse mandatory df col rej p)) = index df"
  by (simp add: process_field_def Let_def index_fold_apply_gen)

lemma same_on_process_field:
  assumes "\<forall>g\<in>set (generated_cols p). gen_ok g W"
    and "c \<notin> W" and "c \<noteq> col" and "c \<noteq> shadow col"
    and "c \<notin> target col ` set (post_process p)"
  shows "same_on (fst (process_field parse mandatory df col rej p)) df c"
proof -
  define t1 where "t1 = normalize_nulls df col (other_nulls p)"
  define ids where "ids = failing (mask mandatory (get_col t1 col) (validity parse p (get_col t1 col)))"
  define t5 where "t5 = (if mandatory then t1 else null_rejected t1 col ids)"
  define t6 where "t6 = fold (apply_post col) (post_process p) t5"
  define t7 where "t7 = fold (apply_gen parse p col) (generated_cols p) t6"
  define t8 where "t8 = (if drop_field p then drop_col t7 col else t7)"
  have r: "fst (process_field parse mandatory df col rej p) = t8"
    by (simp add: process_field_def Let_def t1_def ids_def t5_def t6_def t7_def t8_def)
  have "same_on t1 df c"
    using assms by (simp add: t1_def same_on_normalize_nulls)
  moreover have "same_on t5 t1 c"
    using assms by (simp add: t5_def same_on_null_rejected)
  moreover have "same_on t6 t5 c"
    using assms by (simp add: t6_def same_on_fold_apply_post)
  moreover have "same_on t7 t6 c"
    unfolding t7_def by (rule same_on_fold_apply_gen [OF assms(1) assms(2)])
  moreover have "same_on t8 t7 c"
    using assms by (simp add: t8_def same_on_drop_col)
  ultimately show ?thesis
    unfolding r by (blast intro: same_on_trans)
qed

lemma rejected_add_rejects:
  "rejected (add_rejects rej col ids) c = (if c = col then rejected rej col \<union> ids else rejected rej c)"
  by (simp add: rejected_def add_rejects_def update_conv')

lemma rejected_Nil [simp]: "rejected [] c = {}"
  by (simp add: rejected_def)

lemma snd_process_field:
  "snd (process_field parse mandatory df col rej p) =
     add_rejects rej col
       (failing (mask mandatory (get_col (normalize_nulls df col (other_nulls p)) col)
          (validity parse p (get_col (normalize_nulls df col (other_nulls p)) col))))"
  by (simp add: process_field_def Let_def)

lemma touchesI:
  assumes "\<forall>g\<in>set (generated_cols p). gen_ok g Wg"
    and "Wg \<subseteq> W" and "f \<in> W" and "shadow f \<in> W"
    and "target f ` set (post_process p) \<subseteq> W"
  shows "touches parse mandatory W (f, p)"
  unfolding touches_def
proof (intro allI conjI impI)
  fix df rej c
  show "index (fst (process_field parse mandatory df (fst (f, p)) rej (snd (f, p)))) = index df"
    using index_process_field [OF assms(1)] by simp
  assume "c \<notin> W"
  with assms have "c \<notin> Wg" "c \<noteq> f" "c \<noteq> shadow f" "c \<notin> target f ` set (post_process p)"
    by auto
  then show "same_on (fst (process_field parse mandatory df (fst (f, p)) rej (snd (f, p)))) df c"
    using same_on_process_field [OF assms(1)] by simp
qed

lemma process_fields_Nil [simp]: "process_fields parse m [] st = st"
  by (simp add: process_fields_def)

lemma process_fields_Cons [simp]:
  "process_fields parse m (r # rules) st =
     process_fields parse m rules (process_field parse m (fst st) (fst r) (snd st) (snd r))"
  by (simp add: process_fields_def case_prod_unfold)

lemma process_fields_append:
  "process_fields parse m (xs @ ys) st = process_fields parse m ys (process_fields parse m xs st)"
  by (simp add: process_fields_def)

lemma index_process_fields:
  "\<forall>r\<in>set rules. touches parse m (W (fst r)) r \<Longrightarrow>
   index (fst (process_fields parse m rules st)) = index (fst st)"
proof (induction rules arbitrary: st)
  case Nil
  then show ?case by simp
next
  case (Cons r rules)
  from Cons.prems have r: "touches parse m (W (fst r)) r"
    and rs: "\<forall>r\<in>set rules. touches parse m (W (fst r)) r"
    by simp_all
  from r have "index (fst (process_field parse m (fst st) (fst r) (snd st) (snd r))) = index (fst st)"
    by (simp add: touches_def)
  with Cons.IH [OF rs] show ?case by simp
qed

lemma same_on_process_fields:
  "\<forall>r\<in>set rules. touches parse m (W (fst r)) r \<Longrightarrow> \<forall>r\<in>set rules. c \<notin> W (fst r) \<Longrightarrow>
   same_on (fst (process_fields parse m rules st)) (fst st) c"
proof (induction rules arbitrary: st)
  case Nil
  then show ?case by simp
next
  case (Cons r rules)
  from Cons.prems have r: "touches parse m (W (fst r)) r" "c \<notin> W (fst r)"
    and rs: "\<forall>r\<in>set rules. touches parse m (W (fst r)) r" "\<forall>r\<in>set rules. c \<notin> W (fst r)"
    by simp_all
  from r have "same_on (fst (process_field parse m (fst st) (fst r) (snd st) (snd r))) (fst st) c"
    by (simp add: touches_def)
  moreover have "same_on (fst (process_fields parse m (r # rules) st))
      (fst (process_field parse m (fst st) (fst r) (snd st) (snd r))) c"
    using Cons.IH [OF rs] by simp
  ultimately show ?case by (blast intro: same_on_trans)
qed

lemma rejected_process_fields_other:
  "c \<notin> fst ` set rules \<Longrightarrow>
   rejected (snd (process_fields parse m rules st)) c = rejected (snd st) c"
proof (induction rules arbitrary: st)
  case Nil
  then show ?case by simp
next
  case (Cons r rules)
  then have "c \<noteq> fst r" "c \<notin> fst ` set rules" by auto
  then show ?case
    using Cons.IH by (simp add: snd_process_field rejected_add_rejects)
qed

lemma gen_ok_date_yr_mo: "gen_ok date_yr_mo {''year'', ''month''}"
  by (simp add: gen_ok_def date_yr_mo_def Let_def same_on_def cell_at_assign_col columns_assign_col)

lemma gen_ok_block_num_addr: "gen_ok block_num_addr {''house_num'', ''street_addr''}"
  by (simp add: gen_ok_def block_num_addr_def Let_def same_on_def cell_at_assign_col
        columns_assign_col)

lemma gen_ok_location_lat_lon: "gen_ok location_lat_lon {''latitude'', ''longitude''}"
  by (simp add: gen_ok_def location_lat_lon_def Let_def same_on_def cell_at_assign_col
        columns_assign_col)

lemma touches_no_gen:
  "generated_cols p = [] \<Longrightarrow> target f ` set (post_process p) \<subseteq> {f} \<Longrightarrow>
   touches parse m (writes f) (f, p)"
  by (rule touchesI [where Wg = "{}"]) (auto simp: writes_def)

lemma touches_nonnull: "\<forall>r\<in>set nonnull_fields. touches parse True (writes (fst r)) r"
proof -
  have "touches parse True (writes ''date'')
          (''date'', no_params\<lparr>date_field := True, other_nulls := [''0000-00-00''],
                            generated_cols := [date_yr_mo]\<rparr>)"
    by (rule touchesI [where Wg = "{''year'', ''month''}"])
       (simp_all add: gen_ok_date_yr_mo writes_def no_params_def)
  then show ?thesis
    by (simp add: nonnull_fields_def touches_no_gen no_params_def)
qed

lemma touches_nullable: "\<forall>r\<in>set nullable_fields. touches parse False (writes (fst r)) r"
proof -
  have "touches parse False (writes ''block'')
          (''block'', no_params\<lparr>validation := Some (Regex BLOCK), generated_cols := [block_num_addr]\<rparr>)"
    by (rule touchesI [where Wg = "{''house_num'', ''street_addr''}"])
       (simp_all add: gen_ok_block_num_addr writes_def no_params_def)
  moreover have "touches parse False (writes ''location'')
          (''location'', no_params\<lparr>validation := Some (Regex LOCATION),
                                generated_cols := [location_lat_lon], drop_field := True\<rparr>)"
    by (rule touchesI [where Wg = "{''latitude'', ''longitude''}"])
       (simp_all add: gen_ok_location_lat_lon writes_def no_params_def)
  ultimately show ?thesis
    by (simp add: nullable_fields_def touches_no_gen no_params_def target_def
          primary_type_post_def description_post_def location_description_post_def
          post_zip_codes_def)
qed

lemma loc_not_isin_empty [simp]: "loc_not_isin t {} = t"
  by (simp add: loc_not_isin_def)

lemma loc_not_isin_twice: "loc_not_isin (loc_not_isin t A) B = loc_not_isin t (A \<union> B)"
  by (simp add: loc_not_isin_def case_prod_unfold conj_commute)

lemma unique_rejects_Cons: "unique_rejects (x # rej) = snd x \<union> unique_rejects rej"
  by (simp add: unique_rejects_def)

lemma filter_rejects_union: "filter_rejects t rej = loc_not_isin t (unique_rejects rej)"
proof (induction rej arbitrary: t)
  case Nil
  then show ?case by (simp add: unique_rejects_def)
next
  case (Cons x rej)
  obtain c ids where x: "x = (c, ids)" by (cases x)
  show ?case
    by (simp add: x Cons.IH unique_rejects_Cons loc_not_isin_twice)
qed

lemma failing_mask:
  "i \<in> failing (mask m ser valid) \<longleftrightarrow>
     (\<exists>v. (i, v) \<in> set ser \<and> (case v of None \<Rightarrow> m | Some s \<Rightarrow> ser_at valid i \<noteq> Some True))"
  by (force simp: failing_def mask_def split: option.splits)

lemma get_col_mem:
  "distinct (index t) \<Longrightarrow> (i, v) \<in> set (get_col t c) \<longleftrightarrow> i \<in> set (index t) \<and> v = cell_at t i c"
proof
  assume d: "distinct (index t)" and "(i, v) \<in> set (get_col t c)"
  then obtain r where r: "(i, r) \<in> set (rows t)" and v: "v = cell t r c"
    by (auto simp: get_col_def)
  from r have "i \<in> set (index t)" by (force simp: index_def)
  with cell_at_row [OF d r] v show "i \<in> set (index t) \<and> v = cell_at t i c" by simp
next
  assume d: "distinct (index t)" and "i \<in> set (index t) \<and> v = cell_at t i c"
  then obtain r where r: "(i, r) \<in> set (rows t)" and v: "v = cell_at t i c"
    by (auto simp: index_def)
  with cell_at_row [OF d r] show "(i, v) \<in> set (get_col t c)"
    by (force simp: get_col_def)
qed

lemma failing_get_col:
  "distinct (index t) \<Longrightarrow>
   i \<in> failing (mask m (get_col t c) valid) \<longleftrightarrow>
     i \<in> set (index t) \<and>
     (case cell_at t i c of None \<Rightarrow> m | Some s \<Rightarrow> ser_at valid i \<noteq> Some True)"
  by (simp add: failing_mask get_col_mem)

lemma normalize_nulls_Nil [simp]: "normalize_nulls t col [] = t"
  by (simp add: normalize_nulls_def)

lemma process_field_plain:
  "other_nulls p = [] \<Longrightarrow> post_process p = [] \<Longrightarrow> generated_cols p = [] \<Longrightarrow> \<not> drop_field p \<Longrightarrow>
   process_field parse True df col rej p =
     (df, add_rejects rej col (failing (mask True (get_col df col) (validity parse p (get_col df col)))))"
  by (simp add: process_field_def Let_def)

lemma failing_id:
  "distinct (index t) \<Longrightarrow> valid_values p = None \<Longrightarrow> validation p = Some (Lambda id_val) \<Longrightarrow>
   failing (mask True (get_col t ''id'') (validity parse p (get_col t ''id''))) =
     {i \<in> set (index t). invalid_id (cell_at t i ''id'')}"
  by (auto simp: failing_get_col validity_def id_val_def str_isdigit_def
        ser_at_str_op ser_at_get_col invalid_id_def split: option.splits)

lemma failing_case_number:
  "distinct (index t) \<Longrightarrow> valid_values p = None \<Longrightarrow>
   validation p = Some (Lambda case_number_val) \<Longrightarrow>
   failing (mask True (get_col t ''case_number'') (validity parse p (get_col t ''case_number''))) =
     {i \<in> set (index t). invalid_case_number (cell_at t i ''case_number'')}"
  by (auto simp: failing_get_col validity_def case_number_val_def str_match_def
        str_slice_def ser_at_str_op ser_at_get_col invalid_case_number_def split: option.splits)

lemma failing_date:
  "distinct (index t) \<Longrightarrow> valid_values p = None \<Longrightarrow> validation p = None \<Longrightarrow> date_field p \<Longrightarrow>
   failing (mask True (get_col (normalize_nulls t ''date'' [''0000-00-00'']) ''date'')
      (validity parse p (get_col (normalize_nulls t ''date'' [''0000-00-00'']) ''date''))) =
     {i \<in> set (index t). invalid_date parse (cell_at t i ''date'')}"
  by (auto simp: failing_get_col validity_def ser_at_str_op ser_at_get_col
        cell_at_normalize_nulls invalid_date_def split: option.splits if_splits)

lemma fst_process_field_rej:
  "fst (process_field parse m df col rej p) = fst (process_field parse m df col [] p)"
  by (simp add: process_field_def Let_def)

lemma process_nonnull_fields:
  assumes "distinct (index df)"
  shows "process_fields parse True nonnull_fields (df, []) = (dated parse df, hard_rejects_of parse df)"
proof -
  let ?A = "{i \<in> set (index df). invalid_id (cell_at df i ''id'')}"
  let ?B = "{i \<in> set (index df). invalid_case_number (cell_at df i ''case_number'')}"
  let ?C = "{i \<in> set (index df). invalid_date parse (cell_at df i ''date'')}"
  let ?pd = "no_params\<lparr>date_field := True, other_nulls := [''0000-00-00''],
                       generated_cols := [date_yr_mo]\<rparr>"
  have 1: "process_field parse True df ''id'' [] (no_params\<lparr>validation := Some (Lambda id_val)\<rparr>) =
        (df, [(''id'', ?A)])"
    by (subst process_field_plain)
       (simp_all add: no_params_def failing_id [OF assms] add_rejects_def)
  have 2: "process_field parse True df ''case_number'' [(''id'', ?A)]
          (no_params\<lparr>validation := Some (Lambda case_number_val)\<rparr>) =
        (df, [(''id'', ?A), (''case_number'', ?B)])"
    by (subst process_field_plain)
       (simp_all add: no_params_def failing_case_number [OF assms] add_rejects_def rejected_def)
  have "snd (process_field parse True df ''date'' [(''id'', ?A), (''case_number'', ?B)] ?pd) =
        [(''id'', ?A), (''case_number'', ?B), (''date'', ?C)]"
    unfolding snd_process_field
    by (simp add: failing_date [OF assms] no_params_def add_rejects_def rejected_def)
  moreover have "fst (process_field parse True df ''date'' [(''id'', ?A), (''case_number'', ?B)] ?pd) =
        dated parse df"
    unfolding dated_def by (rule fst_process_field_rej)
  ultimately have 3: "process_field parse True df ''date'' [(''id'', ?A), (''case_number'', ?B)] ?pd =
        (dated parse df, hard_rejects_of parse df)"
    by (simp add: prod_eq_iff hard_rejects_of_def)
  show ?thesis
    by (simp add: nonnull_fields_def 1 2 3)
qed

lemma dated_unfold:
  "dated parse df =
     date_yr_mo (normalize_nulls df ''date'' [''0000-00-00''])
       (map (\<lambda>(i, v). (i, case v of None \<Rightarrow> None | Some s \<Rightarrow> map_option Dt (parse s)))
          (get_col (normalize_nulls df ''date'' [''0000-00-00'']) ''date''))"
  by (simp add: dated_def process_field_def Let_def no_params_def apply_gen_def gen_input_def)

lemma index_dated [simp]: "index (dated parse df) = index df"
  by (simp add: dated_unfold date_yr_mo_def Let_def)

lemma cell_at_dated_date:
  "cell_at (dated parse df) i ''date'' =
     (case cell_at df i ''date'' of None \<Rightarrow> None
      | Some s \<Rightarrow> if s = ''0000-00-00'' then None else Some s)"
  by (simp add: dated_unfold date_yr_mo_def Let_def cell_at_assign_col cell_at_normalize_nulls
        split: option.splits)

lemma cell_at_dated_other:
  "c \<noteq> ''year'' \<Longrightarrow> c \<noteq> ''month'' \<Longrightarrow> c \<noteq> ''date'' \<Longrightarrow> cell_at (dated parse df) i c = cell_at df i c"
  using same_on_normalize_nulls [of c "''date''" df "[''0000-00-00'']"]
  by (simp add: dated_unfold date_yr_mo_def Let_def cell_at_assign_col same_on_def)

lemma process_hard_rejects_char:
  assumes "distinct (index df)"
  shows "process_hard_rejects parse df =
     (loc_not_isin (dated parse df) (unique_rejects (hard_rejects_of parse df)),
      hard_rejects_of parse df)"
  by (simp add: process_hard_rejects_def Let_def process_nonnull_fields [OF assms] filter_rejects_union)

lemma unique_hard_rejects_of:
  "unique_rejects (hard_rejects_of parse df) =
     {i \<in> set (index df). invalid_id (cell_at df i ''id'') \<or>
        invalid_case_number (cell_at df i ''case_number'') \<or>
        invalid_date parse (cell_at df i ''date'')}"
  by (auto simp: unique_rejects_def hard_rejects_of_def)

lemma map_of_filter_label:
  "map_of (filter (\<lambda>(i, r). P i) xs) i = (if P i then map_of xs i else None)"
  by (induction xs) auto

lemma cell_at_loc_not_isin:
  "cell_at (loc_not_isin t ids) i c = (if i \<in> ids then None else cell_at t i c)"
  by (simp add: cell_at_def loc_not_isin_def cell_def map_of_filter_label split: option.splits)

lemma cell_at_fold_post_null:
  "\<forall>pp\<in>set pps. fst pp = None \<and> null_pres (snd pp) \<Longrightarrow> cell_at t i col = None \<Longrightarrow>
   cell_at (fold (apply_post col) pps t) i col = None"
proof (induction pps arbitrary: t)
  case Nil
  then show ?case by simp
next
  case (Cons pp pps)
  from Cons.prems have pp: "fst pp = None" "null_pres (snd pp)"
    and pps: "\<forall>pp\<in>set pps. fst pp = None \<and> null_pres (snd pp)"
    by simp_all
  from pp(2) Cons.prems(2) have "ser_at (snd pp (get_col t col)) i = None"
    by (simp add: null_pres_def ser_at_get_col)
  then have "cell_at (apply_post col pp t) i col = None"
    by (simp add: apply_post_def pp(1) cell_at_assign_col)
  from Cons.IH [OF pps this] show ?case by simp
qed

lemma shadow_inv_process_field:
  assumes d: "distinct (index df)"
    and fresh: "shadow_fresh df rej f"
    and nulls: "other_nulls p = []"
    and post: "\<forall>pp\<in>set (post_process p). fst pp = None \<and> null_pres (snd pp)"
    and gens: "\<forall>g\<in>set (generated_cols p). gen_ok g W" "f \<notin> W" "shadow f \<notin> W"
  shows "shadow_inv (fst (process_field parse False df f rej p))
           (snd (process_field parse False df f rej p)) f"
proof -
  define ids where "ids = failing (mask False (get_col df f) (validity parse p (get_col df f)))"
  define t5 where "t5 = null_rejected df f ids"
  define t6 where "t6 = fold (apply_post f) (post_process p) t5"
  define t7 where "t7 = fold (apply_gen parse p f) (generated_cols p) t6"
  define t8 where "t8 = (if drop_field p then drop_col t7 f else t7)"
  have r: "process_field parse False df f rej p = (t8, add_rejects rej f ids)"
    by (simp add: process_field_def Let_def nulls ids_def t5_def t6_def t7_def t8_def)
  have rej: "rejected (add_rejects rej f ids) f = ids"
    using fresh by (simp add: rejected_add_rejects shadow_fresh_def)
  have idx: "index t8 = index df"
    using index_process_field [OF gens(1), where parse = parse and mandatory = False
        and df = df and col = f and rej = rej]
    by (simp add: r)
  have ids: "i \<in> ids \<Longrightarrow> cell_at df i f \<noteq> None" for i
    by (auto simp: ids_def failing_get_col [OF d] split: option.splits)
  have no_shadow: "cell_at df i (shadow f) = None" for i
    using fresh by (simp add: shadow_fresh_def cell_at_no_column)
  have s5: "cell_at t5 i (shadow f) \<noteq> None \<longleftrightarrow> i \<in> ids" for i
    using ids [of i] by (simp add: t5_def cell_at_null_rejected no_shadow)
  have f5: "i \<in> ids \<Longrightarrow> cell_at t5 i f = None" for i
    by (simp add: t5_def cell_at_null_rejected)
  have "target f ` set (post_process p) \<subseteq> {f}"
    using post by (auto simp: target_def)
  then have "shadow f \<notin> target f ` set (post_process p)"
    by auto
  then have "same_on t6 t5 (shadow f)"
    unfolding t6_def by (rule same_on_fold_apply_post)
  moreover have "same_on t7 t6 (shadow f)"
    unfolding t7_def by (rule same_on_fold_apply_gen [OF gens(1) gens(3)])
  moreover have "same_on t8 t7 (shadow f)"
    by (simp add: t8_def same_on_drop_col)
  ultimately have s8: "cell_at t8 i (shadow f) = cell_at t5 i (shadow f)" for i
    by (simp add: same_on_def)
  have f6: "i \<in> ids \<Longrightarrow> cell_at t6 i f = None" for i
    unfolding t6_def by (rule cell_at_fold_post_null [OF post f5])
  have "same_on t7 t6 f"
    unfolding t7_def by (rule same_on_fold_apply_gen [OF gens(1) gens(2)])
  then have f7: "i \<in> ids \<Longrightarrow> cell_at t7 i f = None" for i
    using f6 [of i] by (simp add: same_on_def)
  have f8: "i \<in> ids \<Longrightarrow> cell_at t8 i f = None" for i
    using f7 [of i] by (simp add: t8_def cell_at_drop_col)
  show ?thesis
    using s5 f8 by (auto simp: r rej shadow_inv_def s8)
qed

lemma shadow_fresh_imp_inv: "shadow_fresh df rej f \<Longrightarrow> shadow_inv df rej f"
  by (simp add: shadow_fresh_def shadow_inv_def cell_at_no_column)

lemma soft_fold_inv:
  assumes "\<forall>r\<in>set rules. step_ok parse r"
    and "\<forall>r\<in>set rules. \<forall>f\<in>F. f \<noteq> fst r \<longrightarrow> f \<notin> writes (fst r) \<and> shadow f \<notin> writes (fst r)"
    and "fst ` set rules \<subseteq> F"
    and "distinct (map fst rules)"
    and "distinct (index (fst st))"
    and "\<forall>f\<in>F. if f \<in> fst ` set rules then shadow_fresh (fst st) (snd st) f
                 else shadow_inv (fst st) (snd st) f"
  shows "\<forall>f\<in>F. shadow_inv (fst (process_fields parse False rules st))
                  (snd (process_fields parse False rules st)) f"
  using assms
proof (induction rules arbitrary: st)
  case Nil
  then show ?case by simp
next
  case (Cons r rules)
  define st' where "st' = process_field parse False (fst st) (fst r) (snd st) (snd r)"
  from Cons.prems(1) have ok: "step_ok parse r" and oks: "\<forall>r\<in>set rules. step_ok parse r"
    by simp_all
  from ok have t: "touches parse False (writes (fst r)) r"
    by (simp add: step_ok_def)
  then have idx: "index (fst st') = index (fst st)"
    by (simp add: touches_def st'_def)
  have same: "same_on (fst st') (fst st) c" if "c \<notin> writes (fst r)" for c
    using t that by (simp add: touches_def st'_def)
  have rej: "rejected (snd st') f = rejected (snd st) f" if "f \<noteq> fst r" for f
    using that by (simp add: st'_def snd_process_field rejected_add_rejects)
  have own: "fst r \<in> F" and notin: "fst r \<notin> fst ` set rules"
    using Cons.prems(3,4) by auto
  have init': "if f \<in> fst ` set rules then shadow_fresh (fst st') (snd st') f
               else shadow_inv (fst st') (snd st') f" if f: "f \<in> F" for f
  proof (cases "f = fst r")
    case True
    with Cons.prems(6) own have "shadow_fresh (fst st) (snd st) (fst r)"
      by auto
    with ok Cons.prems(5) have "shadow_inv (fst st') (snd st') (fst r)"
      by (simp add: step_ok_def st'_def)
    with True notin show ?thesis by simp
  next
    case False
    with Cons.prems(2) f have w: "f \<notin> writes (fst r)" "shadow f \<notin> writes (fst r)"
      by auto
    show ?thesis
    proof (cases "f \<in> fst ` set rules")
      case True
      with Cons.prems(6) f have "shadow_fresh (fst st) (snd st) f"
        by auto
      with same [OF w(2)] rej [OF False] True show ?thesis
        by (simp add: shadow_fresh_def same_on_def)
    next
      case notin_rules: False
      with Cons.prems(6) f False have "shadow_inv (fst st) (snd st) f"
        by auto
      with same [OF w(1)] same [OF w(2)] rej [OF False] idx notin_rules show ?thesis
        by (simp add: shadow_inv_def same_on_def)
    qed
  qed
  have "\<forall>f\<in>F. shadow_inv (fst (process_fields parse False rules st'))
                  (snd (process_fields parse False rules st')) f"
  proof (rule Cons.IH [OF oks])
    show "\<forall>r\<in>set rules. \<forall>f\<in>F. f \<noteq> fst r \<longrightarrow> f \<notin> writes (fst r) \<and> shadow f \<notin> writes (fst r)"
      using Cons.prems(2) by simp
    show "fst ` set rules \<subseteq> F"
      using Cons.prems(3) by simp
    show "distinct (map fst rules)"
      using Cons.prems(4) by simp
    show "distinct (index (fst st'))"
      using Cons.prems(5) idx by simp
    show "\<forall>f\<in>F. if f \<in> fst ` set rules then shadow_fresh (fst st') (snd st') f
                 else shadow_inv (fst st') (snd st') f"
      using init' by blast
  qed
  then show ?case by (simp add: st'_def)
qed

section \<open>The hard-reject phase\<close>

lemma index_process_hard_rejects:
  "index (fst (process_hard_rejects parse df)) =
     filter (\<lambda>i. i \<notin> unique_rejects (snd (process_hard_rejects parse df))) (index df)"
  using index_process_fields [OF touches_nonnull, of parse "(df, [])"]
  by (simp add: process_hard_rejects_def Let_def case_prod_unfold filter_rejects_union
        index_loc_not_isin)

lemma index_process_soft_rejects: "index (fst (process_soft_rejects parse t)) = index t"
  using index_process_fields [OF touches_nullable, of parse "(t, [])"]
  by (simp add: process_soft_rejects_def)

lemma index_report: "index (report t file_name rej unq) = filter (\<lambda>i. i \<in> unq) (index t)"
  by (simp add: report_def Let_def index_def loc_isin_def filter_map comp_def case_prod_unfold)

lemma index_scrub_clean:
  "index (fst (scrub parse df file_name)) = index (fst (process_hard_rejects parse df))"
  by (simp add: scrub_def Let_def case_prod_unfold index_process_soft_rejects)

lemma index_scrub_hard_report:
  "index (fst (snd (scrub parse df file_name))) =
     filter (\<lambda>i. i \<in> unique_rejects (snd (process_hard_rejects parse df))) (index df)"
  by (simp add: scrub_def Let_def case_prod_unfold generate_reject_dfs_def
        analyze_hard_and_soft_rejects_def index_report)

lemma df_ex_index: "index df_ex = [0, 1, 2, 3, 4, 5]"
  by (simp add: df_ex_def index_def)

lemma unique_rejects_set: "set rej' = set rej \<Longrightarrow> unique_rejects rej' = unique_rejects rej"
  by (simp add: unique_rejects_def)

lemma update_fresh: "k \<notin> fst ` set al \<Longrightarrow> AList.update k v al = al @ [(k, v)]"
  by (induction al) auto

lemma rejected_fresh: "c \<notin> fst ` set rej \<Longrightarrow> rejected rej c = {}"
proof -
  assume "c \<notin> fst ` set rej"
  then have "map_of rej c = None"
    by (simp add: map_of_eq_None_iff)
  then show ?thesis
    by (simp add: rejected_def)
qed

lemma add_rejects_fresh: "c \<notin> fst ` set rej \<Longrightarrow> add_rejects rej c ids = rej @ [(c, ids)]"
  by (simp add: add_rejects_def rejected_fresh update_fresh)

lemma process_fields_any_order:
  assumes "distinct (index df)"
  shows "set rules \<subseteq> set nonnull_fields \<Longrightarrow> distinct (map fst rules) \<Longrightarrow>
         fst ` set rules \<inter> fst ` set rej = {} \<Longrightarrow>
         t = df \<or> t = dated parse df \<and> ''date'' \<notin> fst ` set rules \<Longrightarrow>
         process_fields parse True rules (t, rej) =
           (if ''date'' \<in> fst ` set rules then dated parse df else t,
            rej @ map (\<lambda>r. (fst r, hard_set parse df (fst r))) rules)"
proof (induction rules arbitrary: t rej)
  case Nil
  then show ?case by simp
next
  case (Cons r rules)
  obtain f p where r: "r = (f, p)" by (cases r)
  have fresh: "f \<notin> fst ` set rej" and rest: "fst ` set rules \<inter> fst ` set (rej @ [(f, ids)]) = {}" for ids
    using Cons.prems(2,3) by (auto simp: r)
  have dt: "distinct (index t)"
    using Cons.prems(4) assms by auto
  have it: "index t = index df"
    using Cons.prems(4) by auto
  have ct: "cell_at t i c = cell_at df i c" if "c \<noteq> ''year''" "c \<noteq> ''month''" "c \<noteq> ''date''" for i c
    using Cons.prems(4) that by (auto simp: cell_at_dated_other)
  from Cons.prems(1) consider
      (id) "f = ''id''" "p = no_params\<lparr>validation := Some (Lambda id_val)\<rparr>"
    | (cn) "f = ''case_number''" "p = no_params\<lparr>validation := Some (Lambda case_number_val)\<rparr>"
    | (date) "f = ''date''" "p = no_params\<lparr>date_field := True, other_nulls := [''0000-00-00''],
                            generated_cols := [date_yr_mo]\<rparr>"
    by (auto simp: r nonnull_fields_def)
  then show ?case
  proof cases
    case id
    have "process_field parse True t f rej p = (t, rej @ [(f, hard_set parse df f)])"
      by (subst process_field_plain)
         (simp_all add: id no_params_def failing_id [OF dt] add_rejects_fresh [OF fresh [unfolded id(1)]]
            hard_set_def it ct)
    moreover have "t = df \<or> t = dated parse df \<and> ''date'' \<notin> fst ` set rules"
      using Cons.prems(4) by auto
    ultimately show ?thesis
      using Cons.IH [of "rej @ [(f, hard_set parse df f)]" t] Cons.prems(1,2) rest
      by (simp add: r id(1))
  next
    case cn
    have "process_field parse True t f rej p = (t, rej @ [(f, hard_set parse df f)])"
      by (subst process_field_plain)
         (simp_all add: cn no_params_def failing_case_number [OF dt]
            add_rejects_fresh [OF fresh [unfolded cn(1)]] hard_set_def it ct)
    moreover have "t = df \<or> t = dated parse df \<and> ''date'' \<notin> fst ` set rules"
      using Cons.prems(4) by auto
    ultimately show ?thesis
      using Cons.IH [of "rej @ [(f, hard_set parse df f)]" t] Cons.prems(1,2) rest
      by (simp add: r cn(1))
  next
    case date
    have t: "t = df"
      using Cons.prems(4) by (auto simp: r date(1))
    have nd: "''date'' \<notin> fst ` set rules"
      using Cons.prems(2) by (auto simp: r date(1))
    have "snd (process_field parse True df ''date'' rej p) = rej @ [(f, hard_set parse df f)]"
      unfolding snd_process_field
      by (simp add: date no_params_def failing_date [OF assms]
            add_rejects_fresh [OF fresh [unfolded date(1)]] hard_set_def)
    moreover have "fst (process_field parse True df ''date'' rej p) = dated parse df"
      unfolding dated_def date(2) by (rule fst_process_field_rej)
    ultimately have "process_field parse True t f rej p =
        (dated parse df, rej @ [(f, hard_set parse df f)])"
      by (simp add: prod_eq_iff t date(1))
    then show ?thesis
      using Cons.IH [of "rej @ [(f, hard_set parse df f)]" "dated parse df"] Cons.prems(1,2) rest nd
      by (simp add: r date(1))
  qed
qed

lemma hard_phase_any_order:
  assumes "distinct (index df)" and "set rules = set nonnull_fields" and "distinct (map fst rules)"
  shows "fst (hard_phase_in_order parse rules df) = fst (process_hard_rejects parse df)"
    and "set (snd (hard_phase_in_order parse rules df)) = set (snd (process_hard_rejects parse df))"
proof -
  have d: "''date'' \<in> fst ` set rules"
    using assms(2) by (simp add: nonnull_fields_def)
  have p: "process_fields parse True rules (df, []) =
        (dated parse df, map (\<lambda>r. (fst r, hard_set parse df (fst r))) rules)"
    using process_fields_any_order [OF assms(1), of rules "[]" df parse] assms(2,3) d
    by simp
  have s: "set (map (\<lambda>r. (fst r, hard_set parse df (fst r))) rules) = set (hard_rejects_of parse df)"
    using assms(2) by (simp add: nonnull_fields_def hard_rejects_of_def hard_set_def)
  then have u: "unique_rejects (map (\<lambda>r. (fst r, hard_set parse df (fst r))) rules) =
        unique_rejects (hard_rejects_of parse df)"
    by (rule unique_rejects_set)
  show "fst (hard_phase_in_order parse rules df) = fst (process_hard_rejects parse df)"
    by (simp add: hard_phase_in_order_def p filter_rejects_union u
          process_hard_rejects_char [OF assms(1)])
  show "set (snd (hard_phase_in_order parse rules df)) = set (snd (process_hard_rejects parse df))"
    using s by (simp add: hard_phase_in_order_def p process_hard_rejects_char [OF assms(1)])
qed

text \<open>
  Claim C2. While the mandatory rules run no row leaves the table, so every reject set is
  computed against the original table (it is the set of the labels of the original table
  whose value breaks the rule); the removal loop, in whatever order it goes through the
  reject record, leaves the table that one removal of the union of the sets leaves; and so
  does the phase with the mandatory rules evaluated in any other order.
\<close>

theorem hard_removal_is_one_union:
  assumes "distinct (index df)"
    and "set order = set (snd (process_hard_rejects parse df))"
    and "set rules = set nonnull_fields" and "distinct (map fst rules)"
  shows "process_hard_rejects parse df = process_hard_rejects_spec parse df \<and>
         index (fst (process_fields parse True nonnull_fields (df, []))) = index df \<and>
         snd (process_hard_rejects parse df) = hard_rejects_of parse df \<and>
         filter_rejects (fst (process_fields parse True nonnull_fields (df, []))) order =
           fst (process_hard_rejects_spec parse df) \<and>
         fst (hard_phase_in_order parse rules df) = fst (process_hard_rejects_spec parse df) \<and>
         set (snd (hard_phase_in_order parse rules df)) = set (snd (process_hard_rejects_spec parse df))"
proof -
  have "set order = set (hard_rejects_of parse df)"
    using assms(2) by (simp add: process_hard_rejects_char [OF assms(1)])
  then have "unique_rejects order = unique_rejects (hard_rejects_of parse df)"
    by (rule unique_rejects_set)
  moreover have "process_hard_rejects parse df = process_hard_rejects_spec parse df"
    by (simp add: process_hard_rejects_char [OF assms(1)] process_hard_rejects_spec_def
          process_nonnull_fields [OF assms(1)])
  ultimately show ?thesis
    using hard_phase_any_order [OF assms(1,3,4), of parse]
    by (simp add: process_hard_rejects_char [OF assms(1)] process_hard_rejects_spec_def
          process_nonnull_fields [OF assms(1)] filter_rejects_union)
qed

theorem hard_removal_is_one_union_witness:
  "distinct (index df_ex) \<and>
   set (rev (snd (process_hard_rejects parse_ex df_ex))) = set (snd (process_hard_rejects parse_ex df_ex)) \<and>
   set (rev nonnull_fields) = set nonnull_fields \<and> distinct (map fst (rev nonnull_fields)) \<and>
   process_hard_rejects parse_ex df_ex = process_hard_rejects_spec parse_ex df_ex \<and>
   index (fst (process_fields parse_ex True nonnull_fields (df_ex, []))) = index df_ex \<and>
   snd (process_hard_rejects parse_ex df_ex) = hard_rejects_of parse_ex df_ex \<and>
   filter_rejects (fst (process_fields parse_ex True nonnull_fields (df_ex, [])))
       (rev (snd (process_hard_rejects parse_ex df_ex))) =
     fst (process_hard_rejects_spec parse_ex df_ex) \<and>
   fst (hard_phase_in_order parse_ex (rev nonnull_fields) df_ex) =
     fst (process_hard_rejects_spec parse_ex df_ex) \<and>
   set (snd (hard_phase_in_order parse_ex (rev nonnull_fields) df_ex)) =
     set (snd (process_hard_rejects_spec parse_ex df_ex))"
proof -
  have d: "distinct (index df_ex)"
    by (simp add: df_ex_index)
  have o: "set (rev (snd (process_hard_rejects parse_ex df_ex))) =
           set (snd (process_hard_rejects parse_ex df_ex))"
    by simp
  have r: "set (rev nonnull_fields) = set nonnull_fields"
    by simp
  have n: "distinct (map fst (rev nonnull_fields))"
    by (simp add: nonnull_fields_def)
  show ?thesis
    by (rule conjI [OF d conjI [OF o conjI [OF r conjI [OF n
          hard_removal_is_one_union [OF d o r n]]]]])
qed

lemma two_letters_HY: "re_match TWO_LETTERS ''HY''"
  by code_simp

lemma two_letters_12: "\<not> re_match TWO_LETTERS ''12''"
  by code_simp

lemma rejected_hard_rejects_of:
  "rejected (hard_rejects_of parse df) ''id'' = {i \<in> set (index df). invalid_id (cell_at df i ''id'')}"
  "rejected (hard_rejects_of parse df) ''case_number'' =
     {i \<in> set (index df). invalid_case_number (cell_at df i ''case_number'')}"
  "rejected (hard_rejects_of parse df) ''date'' =
     {i \<in> set (index df). invalid_date parse (cell_at df i ''date'')}"
  by (simp_all add: rejected_def hard_rejects_of_def)

lemma snd_hard_char:
  "distinct (index df) \<Longrightarrow> snd (process_hard_rejects parse df) = hard_rejects_of parse df"
  by (simp add: process_hard_rejects_char)

lemma index_hard_char:
  "distinct (index df) \<Longrightarrow>
   index (fst (process_hard_rejects parse df)) =
     filter (\<lambda>i. \<not> invalid_id (cell_at df i ''id'') \<and>
                  \<not> invalid_case_number (cell_at df i ''case_number'') \<and>
                  \<not> invalid_date parse (cell_at df i ''date'')) (index df)"
proof -
  assume d: "distinct (index df)"
  have "filter (\<lambda>i. i \<notin> unique_rejects (hard_rejects_of parse df)) (index df) =
        filter (\<lambda>i. \<not> invalid_id (cell_at df i ''id'') \<and>
                  \<not> invalid_case_number (cell_at df i ''case_number'') \<and>
                  \<not> invalid_date parse (cell_at df i ''date'')) (index df)"
    by (rule filter_cong) (auto simp: unique_hard_rejects_of)
  then show ?thesis
    by (simp add: process_hard_rejects_char [OF d] index_loc_not_isin)
qed

lemma ser_at_case_number_val:
  "ser_at (case_number_val (get_col df ''case_number'')) i =
     map_option (\<lambda>s. re_match TWO_LETTERS (take 2 s)) (cell_at df i ''case_number'')"
  by (simp add: case_number_val_def str_match_def str_slice_def ser_at_str_op ser_at_get_col
        option.map_comp comp_def)

text \<open>
  Claim C5. A case number \<^verbatim>\<open>HY123456\<close> passes the mandatory rule; a case number
  \<^verbatim>\<open>123456\<close> fails it, its row is recorded under \<^verbatim>\<open>case_number\<close> in the hard-reject
  record and is not in the filtered table.
\<close>

theorem case_number_rule:
  assumes "distinct (index df)" and "i \<in> set (index df)"
  shows "(cell_at df i ''case_number'' = Some ''HY123456'' \<longrightarrow>
            ser_at (case_number_val (get_col df ''case_number'')) i = Some True \<and>
            i \<notin> rejected (snd (process_hard_rejects parse df)) ''case_number'') \<and>
         (cell_at df i ''case_number'' = Some ''123456'' \<longrightarrow>
            ser_at (case_number_val (get_col df ''case_number'')) i = Some False \<and>
            i \<in> rejected (snd (process_hard_rejects parse df)) ''case_number'' \<and>
            i \<notin> set (index (fst (process_hard_rejects parse df))))"
  using assms(2) two_letters_HY two_letters_12
  by (simp add: snd_hard_char [OF assms(1)] rejected_hard_rejects_of
        index_hard_char [OF assms(1)] ser_at_case_number_val invalid_case_number_def)

lemma df_ex_case_number:
  "cell_at df_ex 0 ''case_number'' = Some ''HY123456''"
  "cell_at df_ex 1 ''case_number'' = Some ''123456''"
  by (simp_all add: cell_at_def df_ex_def cell_def keep_cols_def)

theorem case_number_rule_witness:
  "distinct (index df_ex) \<and> 0 \<in> set (index df_ex) \<and> 1 \<in> set (index df_ex) \<and>
   cell_at df_ex 0 ''case_number'' = Some ''HY123456'' \<and>
   ser_at (case_number_val (get_col df_ex ''case_number'')) 0 = Some True \<and>
   0 \<notin> rejected (snd (process_hard_rejects parse_ex df_ex)) ''case_number'' \<and>
   cell_at df_ex 1 ''case_number'' = Some ''123456'' \<and>
   ser_at (case_number_val (get_col df_ex ''case_number'')) 1 = Some False \<and>
   1 \<in> rejected (snd (process_hard_rejects parse_ex df_ex)) ''case_number'' \<and>
   1 \<notin> set (index (fst (process_hard_rejects parse_ex df_ex)))"
proof -
  have d: "distinct (index df_ex)" and i0: "0 \<in> set (index df_ex)" and i1: "1 \<in> set (index df_ex)"
    by (simp_all add: df_ex_index)
  note r0 = case_number_rule [OF d i0, of parse_ex, THEN conjunct1, THEN mp,
      OF df_ex_case_number(1)]
  note r1 = case_number_rule [OF d i1, of parse_ex, THEN conjunct2, THEN mp,
      OF df_ex_case_number(2)]
  show ?thesis
    by (intro conjI d i0 i1 df_ex_case_number
          r0 [THEN conjunct1] r0 [THEN conjunct2]
          r1 [THEN conjunct1] r1 [THEN conjunct2, THEN conjunct1]
          r1 [THEN conjunct2, THEN conjunct2])
qed

lemma isdigit_iff: "isdigit s \<longleftrightarrow> s \<noteq> [] \<and> (\<forall>c\<in>set s. is_digit c)"
  by (simp add: isdigit_def list_all_iff)

lemma df_ex_id_2: "cell_at df_ex 2 ''id'' = Some ''3a''"
  by (simp add: cell_at_def df_ex_def cell_def keep_cols_def)

subsection \<open>The phase under either flag\<close>

lemma process_hard_rejects_with_True:
  "process_hard_rejects parse df = process_hard_rejects_with parse True df"
  by (simp add: process_hard_rejects_def process_hard_rejects_with_def)

lemma touches_nonnull_with: "\<forall>r\<in>set nonnull_fields. touches parse m (writes (fst r)) r"
proof -
  have "touches parse m (writes ''date'')
          (''date'', no_params\<lparr>date_field := True, other_nulls := [''0000-00-00''],
                            generated_cols := [date_yr_mo]\<rparr>)"
    by (rule touchesI [where Wg = "{''year'', ''month''}"])
       (simp_all add: gen_ok_date_yr_mo writes_def no_params_def)
  then show ?thesis
    by (simp add: nonnull_fields_def touches_no_gen no_params_def)
qed

lemma index_process_hard_rejects_with:
  "index (fst (process_hard_rejects_with parse m df)) =
     filter (\<lambda>i. i \<notin> unique_rejects (snd (process_hard_rejects_with parse m df))) (index df)"
  using index_process_fields [OF touches_nonnull_with, of parse m "(df, [])"]
  by (simp add: process_hard_rejects_with_def Let_def case_prod_unfold filter_rejects_union
        index_loc_not_isin)

lemma failing_id_with:
  "distinct (index t) \<Longrightarrow> valid_values p = None \<Longrightarrow> validation p = Some (Lambda id_val) \<Longrightarrow>
   failing (mask m (get_col t ''id'') (validity parse p (get_col t ''id''))) =
     {i \<in> set (index t). rejects_id m (cell_at t i ''id'')}"
  by (auto simp: failing_get_col validity_def id_val_def str_isdigit_def
        ser_at_str_op ser_at_get_col rejects_id_def split: option.splits)

lemma failing_case_number_with:
  "distinct (index t) \<Longrightarrow> valid_values p = None \<Longrightarrow>
   validation p = Some (Lambda case_number_val) \<Longrightarrow>
   failing (mask m (get_col t ''case_number'') (validity parse p (get_col t ''case_number''))) =
     {i \<in> set (index t). rejects_case_number m (cell_at t i ''case_number'')}"
  by (auto simp: failing_get_col validity_def case_number_val_def str_match_def
        str_slice_def ser_at_str_op ser_at_get_col rejects_case_number_def split: option.splits)

lemma failing_date_with:
  "distinct (index t) \<Longrightarrow> valid_values p = None \<Longrightarrow> validation p = None \<Longrightarrow> date_field p \<Longrightarrow>
   failing (mask m (get_col (normalize_nulls t ''date'' [''0000-00-00'']) ''date'')
      (validity parse p (get_col (normalize_nulls t ''date'' [''0000-00-00'']) ''date''))) =
     {i \<in> set (index t). rejects_date parse m (cell_at t i ''date'')}"
  by (auto simp: failing_get_col validity_def ser_at_str_op ser_at_get_col
        cell_at_normalize_nulls rejects_date_def split: option.splits if_splits)

text \<open>
  Under either flag each rule of the phase reads its own column as the input table has it:
  the rules before it write other columns.
\<close>

lemma snd_process_nonnull_fields_with:
  assumes "distinct (index df)"
  shows "snd (process_fields parse m nonnull_fields (df, [])) =
     [(''id'', {i \<in> set (index df). rejects_id m (cell_at df i ''id'')}),
      (''case_number'', {i \<in> set (index df). rejects_case_number m (cell_at df i ''case_number'')}),
      (''date'', {i \<in> set (index df). rejects_date parse m (cell_at df i ''date'')})]"
proof -
  let ?A = "{i \<in> set (index df). rejects_id m (cell_at df i ''id'')}"
  let ?B = "{i \<in> set (index df). rejects_case_number m (cell_at df i ''case_number'')}"
  let ?C = "{i \<in> set (index df). rejects_date parse m (cell_at df i ''date'')}"
  let ?p1 = "no_params\<lparr>validation := Some (Lambda id_val)\<rparr>"
  let ?p2 = "no_params\<lparr>validation := Some (Lambda case_number_val)\<rparr>"
  let ?p3 = "no_params\<lparr>date_field := True, other_nulls := [''0000-00-00''],
                       generated_cols := [date_yr_mo]\<rparr>"
  define st1 where "st1 = process_field parse m df ''id'' [] ?p1"
  define st2 where "st2 = process_field parse m (fst st1) ''case_number'' (snd st1) ?p2"
  define st3 where "st3 = process_field parse m (fst st2) ''date'' (snd st2) ?p3"
  have t1: "touches parse m (writes ''id'') (''id'', ?p1)"
    and t2: "touches parse m (writes ''case_number'') (''case_number'', ?p2)"
    using touches_nonnull_with [of parse m] by (simp_all add: nonnull_fields_def)
  have i1: "index (fst st1) = index df"
    using t1 by (simp add: touches_def st1_def)
  have i2: "index (fst st2) = index df"
    using t2 i1 by (simp add: touches_def st2_def)
  have c1: "cell_at (fst st1) i ''case_number'' = cell_at df i ''case_number''" for i
    using t1 by (simp add: touches_def st1_def same_on_def writes_def shadow_def)
  have d1: "cell_at (fst st1) i ''date'' = cell_at df i ''date''" for i
    using t1 by (simp add: touches_def st1_def same_on_def writes_def shadow_def)
  have d2: "cell_at (fst st2) i ''date'' = cell_at df i ''date''" for i
    using t2 d1 by (simp add: touches_def st2_def same_on_def writes_def shadow_def)
  have s1: "snd st1 = [(''id'', ?A)]"
    unfolding st1_def snd_process_field
    by (simp add: no_params_def failing_id_with [OF assms] add_rejects_def)
  have s2: "snd st2 = [(''id'', ?A), (''case_number'', ?B)]"
    unfolding st2_def snd_process_field
    using assms
    by (simp add: no_params_def failing_case_number_with i1 c1 s1 add_rejects_def rejected_def)
  have s3: "snd st3 = [(''id'', ?A), (''case_number'', ?B), (''date'', ?C)]"
    unfolding st3_def snd_process_field
    using assms
    by (simp add: no_params_def failing_date_with i2 d2 s2 add_rejects_def rejected_def)
  have "process_fields parse m nonnull_fields (df, []) = st3"
    by (simp add: nonnull_fields_def st1_def st2_def st3_def)
  with s3 show ?thesis by simp
qed

lemma unique_rejects_with:
  assumes "distinct (index df)"
  shows "unique_rejects (snd (process_hard_rejects_with parse m df)) =
     {i \<in> set (index df). rejects_id m (cell_at df i ''id'') \<or>
        rejects_case_number m (cell_at df i ''case_number'') \<or>
        rejects_date parse m (cell_at df i ''date'')}"
  by (auto simp: process_hard_rejects_with_def Let_def case_prod_unfold
        snd_process_nonnull_fields_with [OF assms] unique_rejects_Cons unique_rejects_def)

lemma rejected_id_with:
  assumes "distinct (index df)"
  shows "rejected (snd (process_hard_rejects_with parse m df)) ''id'' =
     {i \<in> set (index df). rejects_id m (cell_at df i ''id'')}"
  by (simp add: process_hard_rejects_with_def Let_def case_prod_unfold
        snd_process_nonnull_fields_with [OF assms] rejected_def)

text \<open>
  A row whose \<^verbatim>\<open>id\<close> is not null and has a character that \<^verbatim>\<open>str.isdigit\<close> does not
  accept is recorded under \<^verbatim>\<open>id\<close> and leaves the table, whichever flag the processor
  works with and whatever the other fields of the row hold.
\<close>

lemma non_digit_id_is_excluded:
  assumes "distinct (index df)" and "i \<in> set (index df)"
    and "cell_at df i ''id'' = Some s" and "\<exists>c\<in>set s. \<not> is_digit c"
  shows "i \<in> rejected (snd (process_hard_rejects_with parse m df)) ''id'' \<and>
         i \<notin> set (index (fst (process_hard_rejects_with parse m df)))"
proof -
  from assms(3,4) have "rejects_id m (cell_at df i ''id'')"
    by (auto simp: rejects_id_def isdigit_iff)
  with assms(2) show ?thesis
    by (simp add: index_process_hard_rejects_with rejected_id_with [OF assms(1)]
          unique_rejects_with [OF assms(1)])
qed

text \<open>
  A row whose \<^verbatim>\<open>id\<close> is null, with a case number and a date that pass their rules: under
  the mandatory flag it is recorded and leaves the table; without the flag it is not recorded
  and stays.
\<close>

lemma null_id_with:
  assumes "distinct (index df)" and "i \<in> set (index df)"
    and "cell_at df i ''id'' = None"
    and "cell_at df i ''case_number'' = Some cn" and "re_match TWO_LETTERS (take 2 cn)"
    and "cell_at df i ''date'' = Some d" and "d \<noteq> ''0000-00-00''" and "parse d \<noteq> None"
  shows "i \<in> rejected (snd (process_hard_rejects_with parse m df)) ''id'' \<longleftrightarrow> m"
    and "i \<in> set (index (fst (process_hard_rejects_with parse m df))) \<longleftrightarrow> \<not> m"
  using assms
  by (simp_all add: index_process_hard_rejects_with rejected_id_with unique_rejects_with
        rejects_id_def rejects_case_number_def rejects_date_def)




lemma parse_ex_date: "parse_ex ''01/02/2019 10:00:00 AM'' \<noteq> None"
  by (simp add: parse_ex_def)

text \<open>
  The superscript digits pass \<^verbatim>\<open>str.isdigit\<close>: an \<^verbatim>\<open>id\<close> made of the digit 1 and the
  superscript three (U+00B3) is all digits for the rule of \<^verbatim>\<open>id\<close>.
\<close>

lemma isdigit_superscript: "isdigit [CHR ''1'', char_of (179::nat)]"
  by (simp add: isdigit_def is_digit_def)


lemma distinct_index_hard:
  "distinct (index df) \<Longrightarrow> distinct (index (fst (process_hard_rejects parse df)))"
  by (simp add: index_hard_char)

lemma cell_at_hard:
  assumes "distinct (index df)" and "i \<in> set (index (fst (process_hard_rejects parse df)))"
  shows "cell_at (fst (process_hard_rejects parse df)) i ''id'' = cell_at df i ''id''"
    and "cell_at (fst (process_hard_rejects parse df)) i ''case_number'' = cell_at df i ''case_number''"
    and "cell_at (fst (process_hard_rejects parse df)) i ''date'' =
           (case cell_at df i ''date'' of None \<Rightarrow> None
            | Some s \<Rightarrow> if s = ''0000-00-00'' then None else Some s)"
proof -
  from assms(2) have "i \<notin> unique_rejects (hard_rejects_of parse df)"
    by (simp add: process_hard_rejects_char [OF assms(1)] index_loc_not_isin)
  then have "cell_at (fst (process_hard_rejects parse df)) i c = cell_at (dated parse df) i c" for c
    by (simp add: process_hard_rejects_char [OF assms(1)] cell_at_loc_not_isin)
  then show "cell_at (fst (process_hard_rejects parse df)) i ''id'' = cell_at df i ''id''"
    and "cell_at (fst (process_hard_rejects parse df)) i ''case_number'' = cell_at df i ''case_number''"
    and "cell_at (fst (process_hard_rejects parse df)) i ''date'' =
           (case cell_at df i ''date'' of None \<Rightarrow> None
            | Some s \<Rightarrow> if s = ''0000-00-00'' then None else Some s)"
    by (simp_all add: cell_at_dated_date cell_at_dated_other)
qed

lemma cell_at_hard_other:
  assumes "distinct (index df)" and "i \<in> set (index (fst (process_hard_rejects parse df)))"
    and "c \<noteq> ''year''" "c \<noteq> ''month''" "c \<noteq> ''date''"
  shows "cell_at (fst (process_hard_rejects parse df)) i c = cell_at df i c"
proof -
  from assms(2) have "i \<notin> unique_rejects (hard_rejects_of parse df)"
    by (simp add: process_hard_rejects_char [OF assms(1)] index_loc_not_isin)
  then show ?thesis
    by (simp add: process_hard_rejects_char [OF assms(1)] cell_at_loc_not_isin
          cell_at_dated_other [OF assms(3-5)])
qed

lemma columns_filter_rejects [simp]: "columns (filter_rejects t rej) = columns t"
  by (simp add: filter_rejects_union loc_not_isin_def)

lemma columns_hard_other:
  assumes "c \<notin> {''id'', ''id_orig'', ''case_number'', ''case_number_orig'', ''date'', ''date_orig'',
                ''year'', ''month''}"
  shows "c \<in> set (columns (fst (process_hard_rejects parse df))) \<longleftrightarrow> c \<in> set (columns df)"
proof -
  have "\<forall>r\<in>set nonnull_fields. c \<notin> writes (fst r)"
    using assms by (simp add: nonnull_fields_def writes_def shadow_def)
  from same_on_process_fields [OF touches_nonnull this, of parse "(df, [])"]
  show ?thesis
    by (simp add: process_hard_rejects_def Let_def case_prod_unfold same_on_def)
qed

lemma hard_rejects_of_filtered:
  assumes "distinct (index df)"
  shows "hard_rejects_of parse (fst (process_hard_rejects parse df)) =
           [(''id'', {}), (''case_number'', {}), (''date'', {})]"
proof -
  let ?t = "fst (process_hard_rejects parse df)"
  have v: "\<not> invalid_id (cell_at df i ''id'') \<and>
           \<not> invalid_case_number (cell_at df i ''case_number'') \<and>
           \<not> invalid_date parse (cell_at df i ''date'')" if "i \<in> set (index ?t)" for i
    using that by (simp add: index_hard_char [OF assms])
  have "\<not> invalid_id (cell_at ?t i ''id'')" if "i \<in> set (index ?t)" for i
    using v [OF that] by (simp add: cell_at_hard(1) [OF assms that])
  moreover have "\<not> invalid_case_number (cell_at ?t i ''case_number'')" if "i \<in> set (index ?t)" for i
    using v [OF that] by (simp add: cell_at_hard(2) [OF assms that])
  moreover have "\<not> invalid_date parse (cell_at ?t i ''date'')" if "i \<in> set (index ?t)" for i
    using v [OF that]
    by (auto simp: cell_at_hard(3) [OF assms that] invalid_date_def split: option.splits)
  ultimately show ?thesis
    by (auto simp: hard_rejects_of_def)
qed

lemma two_letters_HZ: "re_match TWO_LETTERS ''HZ''"
  by code_simp

lemma df_ex_rows:
  "cell_at df_ex 0 ''id'' = Some ''1''" "cell_at df_ex 1 ''id'' = Some ''2''"
  "cell_at df_ex 3 ''id'' = Some ''4''" "cell_at df_ex 4 ''id'' = Some ''5''"
  "cell_at df_ex 5 ''id'' = Some ''6''"
  "cell_at df_ex 2 ''case_number'' = Some ''HY000003''"
  "cell_at df_ex 3 ''case_number'' = Some ''HZ000004''"
  "cell_at df_ex 4 ''case_number'' = Some ''HZ000005''"
  "cell_at df_ex 5 ''case_number'' = Some ''HZ000006''"
  "i \<in> set (index df_ex) \<Longrightarrow> cell_at df_ex i ''date'' = Some ''01/02/2019 10:00:00 AM''"
  by (auto simp: cell_at_def df_ex_def cell_def keep_cols_def index_def)

lemma df_ex_filtered_index: "index (fst (process_hard_rejects parse_ex df_ex)) = [0, 3, 4, 5]"
proof -
  have d: "distinct (index df_ex)"
    by (simp add: df_ex_index)
  have "\<not> invalid_date parse_ex (Some ''01/02/2019 10:00:00 AM'')"
    by (simp add: invalid_date_def parse_ex_def)
  then show ?thesis
    using two_letters_HY two_letters_HZ two_letters_12
    by (simp add: index_hard_char [OF d] df_ex_index df_ex_rows df_ex_case_number df_ex_id_2
          invalid_id_def invalid_case_number_def isdigit_def is_digit_def del: One_nat_def)
qed

text \<open>
  Claim C7. The hard-reject phase run on the table it produced removes no row: the index
  is unchanged and every reject set of the second run is empty.
\<close>

theorem hard_phase_idempotent:
  assumes "distinct (index df)"
  shows "index (fst (process_hard_rejects parse (fst (process_hard_rejects parse df)))) =
           index (fst (process_hard_rejects parse df)) \<and>
         snd (process_hard_rejects parse (fst (process_hard_rejects parse df))) =
           [(''id'', {}), (''case_number'', {}), (''date'', {})]"
proof -
  have d: "distinct (index (fst (process_hard_rejects parse df)))"
    using assms by (rule distinct_index_hard)
  show ?thesis
    by (simp add: process_hard_rejects_char [OF d] hard_rejects_of_filtered [OF assms]
          index_loc_not_isin unique_rejects_def)
qed

theorem hard_phase_idempotent_witness:
  "distinct (index df_ex) \<and>
   index (fst (process_hard_rejects parse_ex df_ex)) = [0, 3, 4, 5] \<and>
   index (fst (process_hard_rejects parse_ex (fst (process_hard_rejects parse_ex df_ex)))) =
     [0, 3, 4, 5] \<and>
   snd (process_hard_rejects parse_ex (fst (process_hard_rejects parse_ex df_ex))) =
     [(''id'', {}), (''case_number'', {}), (''date'', {})]"
proof -
  have d: "distinct (index df_ex)"
    by (simp add: df_ex_index)
  from d hard_phase_idempotent [OF d, of parse_ex] df_ex_filtered_index show ?thesis
    by simp
qed

section \<open>The soft-reject phase\<close>

lemma null_pres_capitalize_first: "null_pres capitalize_first"
  by (simp add: null_pres_def capitalize_first_def str_title_def ser_at_str_op)

lemma ser_at_zip_to_five:
  "ser_at (zip_to_five zips) i =
     (case ser_at zips i of None \<Rightarrow> None
      | Some s \<Rightarrow> if length s = 4 then Some (''0'' @ s) else if length s = 5 then Some s else None)"
  unfolding zip_to_five_def by (subst ser_at_map_strict) simp_all

lemma null_pres_zip_to_five: "null_pres (\<lambda>series. zip_to_five series)"
  by (simp add: null_pres_def ser_at_zip_to_five)

lemma step_okI:
  assumes "touches parse False (writes f) (f, p)"
    and "other_nulls p = []"
    and "\<forall>pp\<in>set (post_process p). fst pp = None \<and> null_pres (snd pp)"
    and "\<forall>g\<in>set (generated_cols p). gen_ok g W" and "f \<notin> W" and "shadow f \<notin> W"
  shows "step_ok parse (f, p)"
  unfolding step_ok_def
  using assms(1) shadow_inv_process_field [OF _ _ assms(2-6)] by simp

lemma nullable_rule_touches: "r \<in> set nullable_fields \<Longrightarrow> touches parse False (writes (fst r)) r"
  using touches_nullable by blast

lemma step_ok_nullable: "\<forall>r\<in>set nullable_fields. step_ok parse r"
proof
  fix r assume r: "r \<in> set nullable_fields"
  obtain f p where fp: "r = (f, p)" by (cases r)
  have t: "touches parse False (writes f) (f, p)"
    using nullable_rule_touches [OF r] by (simp add: fp)
  from r consider
      "r = (''block'', no_params\<lparr>validation := Some (Regex BLOCK), generated_cols := [block_num_addr]\<rparr>)"
    | "r = (''location'', no_params\<lparr>validation := Some (Regex LOCATION),
                                generated_cols := [location_lat_lon], drop_field := True\<rparr>)"
    | "generated_cols p = []" "other_nulls p = []"
      "\<forall>pp\<in>set (post_process p). fst pp = None \<and> null_pres (snd pp)"
    by (auto simp: fp nullable_fields_def no_params_def primary_type_post_def description_post_def
          location_description_post_def post_zip_codes_def null_pres_capitalize_first
          null_pres_zip_to_five)
  then show "step_ok parse r"
  proof cases
    case 1
    with fp have f: "f = ''block''"
      and p: "p = no_params\<lparr>validation := Some (Regex BLOCK), generated_cols := [block_num_addr]\<rparr>"
      by simp_all
    have "step_ok parse (f, p)"
      by (rule step_okI [OF t, where W = "{''house_num'', ''street_addr''}"])
         (simp_all add: f p no_params_def gen_ok_block_num_addr shadow_def)
    then show ?thesis by (simp add: fp)
  next
    case 2
    with fp have f: "f = ''location''"
      and p: "p = no_params\<lparr>validation := Some (Regex LOCATION),
                           generated_cols := [location_lat_lon], drop_field := True\<rparr>"
      by simp_all
    have "step_ok parse (f, p)"
      by (rule step_okI [OF t, where W = "{''latitude'', ''longitude''}"])
         (simp_all add: f p no_params_def gen_ok_location_lat_lon shadow_def)
    then show ?thesis by (simp add: fp)
  next
    case 3
    have "step_ok parse (f, p)"
      by (rule step_okI [OF t, where W = "{}"]) (simp_all add: 3)
    then show ?thesis by (simp add: fp)
  qed
qed

lemma nullable_no_interference:
  "\<forall>r\<in>set nullable_fields. \<forall>f\<in>fst ` set nullable_fields.
      f \<noteq> fst r \<longrightarrow> f \<notin> writes (fst r) \<and> shadow f \<notin> writes (fst r)"
  by (simp add: nullable_fields_def writes_def shadow_def)

lemma nullable_distinct: "distinct (map fst nullable_fields)"
  by (simp add: nullable_fields_def)

text \<open>
  Claim C3. After the soft-reject phase, for every optional field and every row, the shadow
  column of the field holds a value at the row exactly when the row is recorded under the
  field in the soft-reject record, and then the field itself is null at the row. (The
  \<^verbatim>\<open>location\<close> column is dropped after its rule: the table has no cell under it, which
  \<open>cell_at\<close> reads as null.)
\<close>

theorem shadow_column_invariant:
  assumes "distinct (index df_filt)"
    and "\<forall>f\<in>fst ` set nullable_fields. shadow f \<notin> set (columns df_filt)"
  shows "\<forall>f\<in>fst ` set nullable_fields.
           \<forall>i\<in>set (index (fst (process_soft_rejects parse df_filt))).
             (cell_at (fst (process_soft_rejects parse df_filt)) i (shadow f) \<noteq> None \<longleftrightarrow>
                i \<in> rejected (snd (process_soft_rejects parse df_filt)) f) \<and>
             (i \<in> rejected (snd (process_soft_rejects parse df_filt)) f \<longrightarrow>
                cell_at (fst (process_soft_rejects parse df_filt)) i f = None)"
proof -
  have "\<forall>f\<in>fst ` set nullable_fields.
          shadow_inv (fst (process_fields parse False nullable_fields (df_filt, [])))
            (snd (process_fields parse False nullable_fields (df_filt, []))) f"
  proof (rule soft_fold_inv [OF step_ok_nullable nullable_no_interference _ nullable_distinct])
    show "fst ` set nullable_fields \<subseteq> fst ` set nullable_fields"
      by simp
    show "distinct (index (fst (df_filt, [])))"
      using assms(1) by simp
    show "\<forall>f\<in>fst ` set nullable_fields.
            if f \<in> fst ` set nullable_fields then shadow_fresh (fst (df_filt, [])) (snd (df_filt, [])) f
            else shadow_inv (fst (df_filt, [])) (snd (df_filt, [])) f"
      using assms(2) by (simp add: shadow_fresh_def)
  qed
  then show ?thesis
    by (simp add: process_soft_rejects_def shadow_inv_def)
qed

subsection \<open>The rules of \<^verbatim>\<open>location\<close> and \<^verbatim>\<open>zip_codes\<close>\<close>

lemma nullable_split:
  "nullable_fields =
     rules_before_location @ [(''location'', location_rule), (''zip_codes'', zip_codes_rule)]"
  by (simp add: nullable_fields_def rules_before_location_def location_rule_def zip_codes_rule_def)

lemma rules_before_location_subset: "set rules_before_location \<subseteq> set nullable_fields"
  by (auto simp: nullable_split)

lemma touches_before_location:
  "\<forall>r\<in>set rules_before_location. touches parse False (writes (fst r)) r"
  using touches_nullable rules_before_location_subset by blast

lemma touches_location: "touches parse False (writes ''location'') (''location'', location_rule)"
  using touches_nullable [of parse] by (simp add: nullable_split)

lemma touches_zip_codes: "touches parse False (writes ''zip_codes'') (''zip_codes'', zip_codes_rule)"
  using touches_nullable [of parse] by (simp add: nullable_split)

lemma before_location_writes:
  "c \<in> {''location'', ''location_orig'', ''zip_codes'', ''zip_codes_orig'', ''latitude'', ''longitude''} \<Longrightarrow>
   \<forall>r\<in>set rules_before_location. c \<notin> writes (fst r)"
  by (auto simp: rules_before_location_def nullable_fields_def writes_def shadow_def)

lemma failing_regex:
  "distinct (index t) \<Longrightarrow> valid_values p = None \<Longrightarrow> validation p = Some (Regex pat) \<Longrightarrow>
   failing (mask False (get_col t c) (validity parse p (get_col t c))) =
     {i \<in> set (index t). \<exists>s. cell_at t i c = Some s \<and> \<not> re_match pat s}"
  by (auto simp: failing_get_col validity_def str_match_def ser_at_str_op ser_at_get_col
        split: option.splits)

lemma ser_at_zip_to_five_value:
  "ser_at (zip_to_five zips) i = (case ser_at zips i of None \<Rightarrow> None | Some s \<Rightarrow> zip_value s)"
  by (simp add: ser_at_zip_to_five zip_value_def split: option.splits)

lemma cell_at_SomeD: "cell_at t i c = Some s \<Longrightarrow> i \<in> set (index t)"
  using cell_at_outside [of i t c] by auto

lemma process_field_zip_codes:
  assumes "distinct (index t)"
  defines "ids \<equiv> {i \<in> set (index t). \<exists>s. cell_at t i ''zip_codes'' = Some s \<and> \<not> re_match ZIP_CODES s}"
  shows "snd (process_field parse False t ''zip_codes'' rej zip_codes_rule) =
           add_rejects rej ''zip_codes'' ids"
    and "cell_at (fst (process_field parse False t ''zip_codes'' rej zip_codes_rule)) i ''zip_codes'' =
           (case cell_at t i ''zip_codes'' of None \<Rightarrow> None
            | Some s \<Rightarrow> if re_match ZIP_CODES s then zip_value s else None)"
    and "cell_at (fst (process_field parse False t ''zip_codes'' rej zip_codes_rule)) i ''zip_codes_orig'' =
           (case cell_at t i ''zip_codes'' of None \<Rightarrow> cell_at t i ''zip_codes_orig''
            | Some s \<Rightarrow> if re_match ZIP_CODES s then cell_at t i ''zip_codes_orig'' else Some s)"
proof -
  have f: "failing (mask False (get_col t ''zip_codes'')
             (validity parse zip_codes_rule (get_col t ''zip_codes''))) = ids"
    unfolding ids_def
    by (rule failing_regex [OF assms(1)]) (simp_all add: zip_codes_rule_def no_params_def)
  then show "snd (process_field parse False t ''zip_codes'' rej zip_codes_rule) =
           add_rejects rej ''zip_codes'' ids"
    by (simp add: snd_process_field zip_codes_rule_def no_params_def)
  have t: "fst (process_field parse False t ''zip_codes'' rej zip_codes_rule) =
        assign_col (null_rejected t ''zip_codes'' ids) ''zip_codes''
          (zip_to_five (get_col (null_rejected t ''zip_codes'' ids) ''zip_codes''))"
    using f
    by (simp add: process_field_def Let_def zip_codes_rule_def no_params_def post_zip_codes_def
          apply_post_def)
  have out: "i \<notin> set (index t) \<Longrightarrow> i \<notin> ids"
    by (simp add: ids_def)
  show "cell_at (fst (process_field parse False t ''zip_codes'' rej zip_codes_rule)) i ''zip_codes'' =
           (case cell_at t i ''zip_codes'' of None \<Rightarrow> None
            | Some s \<Rightarrow> if re_match ZIP_CODES s then zip_value s else None)"
    by (auto simp: t cell_at_assign_col ser_at_zip_to_five_value ser_at_get_col
          cell_at_null_rejected shadow_def ids_def cell_at_outside split: option.splits
          dest: cell_at_SomeD)
  show "cell_at (fst (process_field parse False t ''zip_codes'' rej zip_codes_rule)) i ''zip_codes_orig'' =
           (case cell_at t i ''zip_codes'' of None \<Rightarrow> cell_at t i ''zip_codes_orig''
            | Some s \<Rightarrow> if re_match ZIP_CODES s then cell_at t i ''zip_codes_orig'' else Some s)"
    using cell_at_null_rejected [of t "''zip_codes''" ids i "''zip_codes_orig''"]
    by (auto simp: t cell_at_assign_col shadow_def ids_def cell_at_outside split: option.splits
          dest: cell_at_SomeD)
qed


lemma process_field_location:
  assumes "distinct (index t)"
  defines "ids \<equiv> {i \<in> set (index t). \<exists>s. cell_at t i ''location'' = Some s \<and> \<not> re_match LOCATION s}"
  shows "''location'' \<notin> set (columns (fst (process_field parse False t ''location'' rej location_rule)))"
    and "''latitude'' \<in> set (columns (fst (process_field parse False t ''location'' rej location_rule)))"
    and "''longitude'' \<in> set (columns (fst (process_field parse False t ''location'' rej location_rule)))"
    and "cell_at (fst (process_field parse False t ''location'' rej location_rule)) i ''latitude'' =
           (case cell_at t i ''location'' of None \<Rightarrow> None
            | Some s \<Rightarrow> if re_match LOCATION s then group LOCATION 1 s else None)"
    and "cell_at (fst (process_field parse False t ''location'' rej location_rule)) i ''longitude'' =
           (case cell_at t i ''location'' of None \<Rightarrow> None
            | Some s \<Rightarrow> if re_match LOCATION s then group LOCATION 2 s else None)"
proof -
  have f: "failing (mask False (get_col t ''location'')
             (validity parse location_rule (get_col t ''location''))) = ids"
    unfolding ids_def
    by (rule failing_regex [OF assms(1)]) (simp_all add: location_rule_def no_params_def)
  define t5 where "t5 = null_rejected t ''location'' ids"
  have t: "fst (process_field parse False t ''location'' rej location_rule) =
        drop_col (location_lat_lon t5 (str_op Str (get_col t5 ''location''))) ''location''"
    using f
    by (simp add: process_field_def Let_def location_rule_def no_params_def apply_gen_def
          gen_input_def t5_def)
  have x: "ser_at (str_extract LOCATION k (str_op Str (get_col t5 ''location''))) i =
        (case cell_at t5 i ''location'' of None \<Rightarrow> None | Some s \<Rightarrow> group LOCATION k s)" for k
    unfolding str_extract_def
    by (subst ser_at_map_strict)
       (simp_all add: ser_at_str_op ser_at_get_col group_def split: option.splits)
  have c5: "cell_at t5 i ''location'' =
        (case cell_at t i ''location'' of None \<Rightarrow> None
         | Some s \<Rightarrow> if re_match LOCATION s then Some s else None)"
    by (auto simp: t5_def cell_at_null_rejected shadow_def ids_def split: option.splits
          dest: cell_at_SomeD)
  have idx5: "index t5 = index t"
    by (simp add: t5_def)
  show "''location'' \<notin> set (columns (fst (process_field parse False t ''location'' rej location_rule)))"
    by (simp add: t columns_drop_col)
  show "''latitude'' \<in> set (columns (fst (process_field parse False t ''location'' rej location_rule)))"
    by (simp add: t columns_drop_col location_lat_lon_def Let_def columns_assign_col)
  show "''longitude'' \<in> set (columns (fst (process_field parse False t ''location'' rej location_rule)))"
    by (simp add: t columns_drop_col location_lat_lon_def Let_def columns_assign_col)
  show "cell_at (fst (process_field parse False t ''location'' rej location_rule)) i ''latitude'' =
           (case cell_at t i ''location'' of None \<Rightarrow> None
            | Some s \<Rightarrow> if re_match LOCATION s then group LOCATION 1 s else None)"
    by (auto simp: t cell_at_drop_col location_lat_lon_def Let_def cell_at_assign_col x c5
          idx5 cell_at_outside split: option.splits)
  show "cell_at (fst (process_field parse False t ''location'' rej location_rule)) i ''longitude'' =
           (case cell_at t i ''location'' of None \<Rightarrow> None
            | Some s \<Rightarrow> if re_match LOCATION s then group LOCATION 2 s else None)"
    by (auto simp: t cell_at_drop_col location_lat_lon_def Let_def cell_at_assign_col x c5
          idx5 cell_at_outside split: option.splits)
qed

lemma process_soft_rejects_unfold:
  "process_soft_rejects parse df =
     process_field parse False (fst (before_zip_codes parse df)) ''zip_codes''
       (snd (before_zip_codes parse df)) zip_codes_rule"
  by (simp add: process_soft_rejects_def nullable_split process_fields_append
        before_zip_codes_def before_location_def)

lemma index_before_location [simp]: "index (fst (before_location parse df)) = index df"
  using index_process_fields [OF touches_before_location, of parse "(df, [])"]
  by (simp add: before_location_def)

lemma same_on_before_location:
  "c \<in> {''location'', ''location_orig'', ''zip_codes'', ''zip_codes_orig'', ''latitude'', ''longitude''} \<Longrightarrow>
   same_on (fst (before_location parse df)) df c"
  using same_on_process_fields [OF touches_before_location before_location_writes,
      of c parse "(df, [])"]
  by (simp add: before_location_def)

lemma rejected_before_location:
  "rejected (snd (before_location parse df)) ''zip_codes'' = {}"
  unfolding before_location_def
  by (subst rejected_process_fields_other)
     (auto simp: rules_before_location_def nullable_fields_def)

lemma index_before_zip_codes [simp]: "index (fst (before_zip_codes parse df)) = index df"
  using touches_location [of parse] by (simp add: before_zip_codes_def touches_def)

lemma same_on_before_zip_codes:
  "c \<in> {''zip_codes'', ''zip_codes_orig''} \<Longrightarrow> same_on (fst (before_zip_codes parse df)) df c"
proof -
  assume c: "c \<in> {''zip_codes'', ''zip_codes_orig''}"
  then have "c \<notin> writes ''location''"
    by (auto simp: writes_def shadow_def)
  with touches_location [of parse]
  have "same_on (fst (before_zip_codes parse df)) (fst (before_location parse df)) c"
    by (simp add: before_zip_codes_def touches_def)
  moreover from c have "same_on (fst (before_location parse df)) df c"
    by (intro same_on_before_location) auto
  ultimately show ?thesis
    by (rule same_on_trans)
qed

lemma rejected_before_zip_codes: "rejected (snd (before_zip_codes parse df)) ''zip_codes'' = {}"
  by (simp add: before_zip_codes_def snd_process_field rejected_add_rejects rejected_before_location)

lemma soft_zip_codes:
  assumes "distinct (index df)"
  shows "rejected (snd (process_soft_rejects parse df)) ''zip_codes'' =
           {i \<in> set (index df). \<exists>s. cell_at df i ''zip_codes'' = Some s \<and> \<not> re_match ZIP_CODES s}"
    and "cell_at (fst (process_soft_rejects parse df)) i ''zip_codes'' =
           (case cell_at df i ''zip_codes'' of None \<Rightarrow> None
            | Some s \<Rightarrow> if re_match ZIP_CODES s then zip_value s else None)"
    and "cell_at (fst (process_soft_rejects parse df)) i ''zip_codes_orig'' =
           (case cell_at df i ''zip_codes'' of None \<Rightarrow> cell_at df i ''zip_codes_orig''
            | Some s \<Rightarrow> if re_match ZIP_CODES s then cell_at df i ''zip_codes_orig'' else Some s)"
proof -
  have d: "distinct (index (fst (before_zip_codes parse df)))"
    using assms by simp
  have z: "cell_at (fst (before_zip_codes parse df)) j ''zip_codes'' = cell_at df j ''zip_codes''"
    and o: "cell_at (fst (before_zip_codes parse df)) j ''zip_codes_orig'' = cell_at df j ''zip_codes_orig''"
    for j
    using same_on_before_zip_codes [of "''zip_codes''" parse df]
      same_on_before_zip_codes [of "''zip_codes_orig''" parse df]
    by (simp_all add: same_on_def)
  show "rejected (snd (process_soft_rejects parse df)) ''zip_codes'' =
           {i \<in> set (index df). \<exists>s. cell_at df i ''zip_codes'' = Some s \<and> \<not> re_match ZIP_CODES s}"
    by (simp add: process_soft_rejects_unfold process_field_zip_codes(1) [OF d]
          rejected_add_rejects rejected_before_zip_codes z)
  show "cell_at (fst (process_soft_rejects parse df)) i ''zip_codes'' =
           (case cell_at df i ''zip_codes'' of None \<Rightarrow> None
            | Some s \<Rightarrow> if re_match ZIP_CODES s then zip_value s else None)"
    by (simp add: process_soft_rejects_unfold process_field_zip_codes(2) [OF d] z)
  show "cell_at (fst (process_soft_rejects parse df)) i ''zip_codes_orig'' =
           (case cell_at df i ''zip_codes'' of None \<Rightarrow> cell_at df i ''zip_codes_orig''
            | Some s \<Rightarrow> if re_match ZIP_CODES s then cell_at df i ''zip_codes_orig'' else Some s)"
    by (simp add: process_soft_rejects_unfold process_field_zip_codes(3) [OF d] z o
          split: option.splits)
qed

lemma soft_location:
  assumes "distinct (index df)"
  shows "''location'' \<notin> set (columns (fst (process_soft_rejects parse df)))"
    and "''latitude'' \<in> set (columns (fst (process_soft_rejects parse df)))"
    and "''longitude'' \<in> set (columns (fst (process_soft_rejects parse df)))"
    and "cell_at (fst (process_soft_rejects parse df)) i ''latitude'' =
           (case cell_at df i ''location'' of None \<Rightarrow> None
            | Some s \<Rightarrow> if re_match LOCATION s then group LOCATION 1 s else None)"
    and "cell_at (fst (process_soft_rejects parse df)) i ''longitude'' =
           (case cell_at df i ''location'' of None \<Rightarrow> None
            | Some s \<Rightarrow> if re_match LOCATION s then group LOCATION 2 s else None)"
proof -
  have d: "distinct (index (fst (before_location parse df)))"
    using assms by simp
  have l: "cell_at (fst (before_location parse df)) j ''location'' = cell_at df j ''location''" for j
    using same_on_before_location [of "''location''" parse df] by (simp add: same_on_def)
  have s: "same_on (fst (process_soft_rejects parse df)) (fst (before_zip_codes parse df)) c"
    if "c \<in> {''location'', ''latitude'', ''longitude''}" for c
  proof -
    from that have "c \<notin> writes ''zip_codes''"
      by (auto simp: writes_def shadow_def)
    with touches_zip_codes [of parse] show ?thesis
      by (simp add: process_soft_rejects_unfold touches_def)
  qed
  note p = process_field_location [OF d, of parse "snd (before_location parse df)",
      folded before_zip_codes_def]
  show "''location'' \<notin> set (columns (fst (process_soft_rejects parse df)))"
    using s [of "''location''"] p(1) by (simp add: same_on_def)
  show "''latitude'' \<in> set (columns (fst (process_soft_rejects parse df)))"
    using s [of "''latitude''"] p(2) by (simp add: same_on_def)
  show "''longitude'' \<in> set (columns (fst (process_soft_rejects parse df)))"
    using s [of "''longitude''"] p(3) by (simp add: same_on_def)
  show "cell_at (fst (process_soft_rejects parse df)) i ''latitude'' =
           (case cell_at df i ''location'' of None \<Rightarrow> None
            | Some s \<Rightarrow> if re_match LOCATION s then group LOCATION 1 s else None)"
    using s [of "''latitude''"] p(4) [of i] by (simp add: same_on_def l)
  show "cell_at (fst (process_soft_rejects parse df)) i ''longitude'' =
           (case cell_at df i ''location'' of None \<Rightarrow> None
            | Some s \<Rightarrow> if re_match LOCATION s then group LOCATION 2 s else None)"
    using s [of "''longitude''"] p(5) [of i] by (simp add: same_on_def l)
qed

subsection \<open>Zip codes and coordinates\<close>

lemma zip_606: "\<not> re_match ZIP_CODES ''606''"
  by code_simp

lemma zip_6060: "re_match ZIP_CODES ''6060''"
  by code_simp

lemma zip_60601: "re_match ZIP_CODES ''60601''"
  by code_simp

lemma zip_606010: "re_match ZIP_CODES ''606010''"
  by code_simp

lemma location_example:
  "re_match LOCATION ''(41.88, -87.62)''"
  "group LOCATION 1 ''(41.88, -87.62)'' = Some ''41.88''"
  "group LOCATION 2 ''(41.88, -87.62)'' = Some ''-87.62''"
  by code_simp+

lemma zip_value_length: "zip_value s = Some z \<Longrightarrow> length z = 5"
  by (auto simp: zip_value_def split: if_splits)

text \<open>
  Claim C4. The soft-reject phase rejects the zip code \<^verbatim>\<open>606\<close> (the row is recorded, the
  field becomes null, the value goes to the shadow column), turns \<^verbatim>\<open>6060\<close> into
  \<^verbatim>\<open>06060\<close> and leaves \<^verbatim>\<open>60601\<close> as it is.
\<close>

theorem zip_code_examples:
  assumes "distinct (index df_filt)" and "i \<in> set (index df_filt)"
  shows "(cell_at df_filt i ''zip_codes'' = Some ''606'' \<longrightarrow>
            i \<in> rejected (snd (process_soft_rejects parse df_filt)) ''zip_codes'' \<and>
            cell_at (fst (process_soft_rejects parse df_filt)) i ''zip_codes'' = None \<and>
            cell_at (fst (process_soft_rejects parse df_filt)) i ''zip_codes_orig'' = Some ''606'') \<and>
         (cell_at df_filt i ''zip_codes'' = Some ''6060'' \<longrightarrow>
            i \<notin> rejected (snd (process_soft_rejects parse df_filt)) ''zip_codes'' \<and>
            cell_at (fst (process_soft_rejects parse df_filt)) i ''zip_codes'' = Some ''06060'') \<and>
         (cell_at df_filt i ''zip_codes'' = Some ''60601'' \<longrightarrow>
            i \<notin> rejected (snd (process_soft_rejects parse df_filt)) ''zip_codes'' \<and>
            cell_at (fst (process_soft_rejects parse df_filt)) i ''zip_codes'' = Some ''60601'')"
  using assms(2) zip_606 zip_6060 zip_60601
  by (simp add: soft_zip_codes [OF assms(1)] zip_value_def)

text \<open>
  Claim C10. After the soft-reject phase every value of the \<^verbatim>\<open>zip_codes\<close> column has five
  characters. The value \<^verbatim>\<open>606010\<close> matches the pattern (its first alternative is not
  anchored at the end), so no reject is recorded and nothing goes to the shadow column, and
  yet the post-processing step makes the field null.
\<close>

theorem zip_codes_have_five_characters:
  assumes "distinct (index df_filt)" and "i \<in> set (index df_filt)"
    and "''zip_codes_orig'' \<notin> set (columns df_filt)"
  shows "(\<forall>j s. cell_at (fst (process_soft_rejects parse df_filt)) j ''zip_codes'' = Some s \<longrightarrow>
            length s = 5) \<and>
         (cell_at df_filt i ''zip_codes'' = Some ''606010'' \<longrightarrow>
            re_match ZIP_CODES ''606010'' \<and>
            i \<notin> rejected (snd (process_soft_rejects parse df_filt)) ''zip_codes'' \<and>
            cell_at (fst (process_soft_rejects parse df_filt)) i ''zip_codes_orig'' = None \<and>
            cell_at (fst (process_soft_rejects parse df_filt)) i ''zip_codes'' = None)"
proof -
  have "length s = 5"
    if "cell_at (fst (process_soft_rejects parse df_filt)) j ''zip_codes'' = Some s" for j s
    using that
    by (auto simp: soft_zip_codes(2) [OF assms(1)] split: option.splits if_splits
          dest: zip_value_length)
  moreover have "cell_at df_filt i ''zip_codes_orig'' = None"
    using assms(3) by (rule cell_at_no_column)
  ultimately show ?thesis
    using zip_606010 by (simp add: soft_zip_codes [OF assms(1)] zip_value_def)
qed


lemma df_ex_zip_codes:
  "cell_at df_ex 0 ''zip_codes'' = Some ''6060''"
  "cell_at df_ex 3 ''zip_codes'' = Some ''606010''"
  "cell_at df_ex 4 ''zip_codes'' = Some ''606''"
  "cell_at df_ex 5 ''zip_codes'' = Some ''60601''"
  by (simp_all add: cell_at_def df_ex_def cell_def keep_cols_def)

lemma df_filt_ex_index: "index df_filt_ex = [0, 3, 4, 5]"
  by (simp add: df_filt_ex_def df_ex_filtered_index)

lemma df_filt_ex_zip_codes:
  "cell_at df_filt_ex 0 ''zip_codes'' = Some ''6060''"
  "cell_at df_filt_ex 3 ''zip_codes'' = Some ''606010''"
  "cell_at df_filt_ex 4 ''zip_codes'' = Some ''606''"
  "cell_at df_filt_ex 5 ''zip_codes'' = Some ''60601''"
proof -
  have d: "distinct (index df_ex)"
    by (simp add: df_ex_index)
  have "cell_at df_filt_ex i ''zip_codes'' = cell_at df_ex i ''zip_codes''" if "i \<in> set [0, 3, 4, 5]" for i
    unfolding df_filt_ex_def
    by (rule cell_at_hard_other [OF d]) (simp_all add: df_ex_filtered_index that [simplified])
  then show "cell_at df_filt_ex 0 ''zip_codes'' = Some ''6060''"
    "cell_at df_filt_ex 3 ''zip_codes'' = Some ''606010''"
    "cell_at df_filt_ex 4 ''zip_codes'' = Some ''606''"
    "cell_at df_filt_ex 5 ''zip_codes'' = Some ''60601''"
    by (simp_all add: df_ex_zip_codes)
qed

lemma df_ex_no_shadow: "\<forall>f\<in>fst ` set nullable_fields. shadow f \<notin> set (columns df_ex)"
  by (simp add: nullable_fields_def shadow_def df_ex_def keep_cols_def)

lemma df_filt_ex_no_shadow: "\<forall>f\<in>fst ` set nullable_fields. shadow f \<notin> set (columns df_filt_ex)"
proof
  fix f assume f: "f \<in> fst ` set nullable_fields"
  then have "shadow f \<notin> {''id'', ''id_orig'', ''case_number'', ''case_number_orig'', ''date'',
      ''date_orig'', ''year'', ''month''}"
    by (auto simp: nullable_fields_def shadow_def)
  moreover from f df_ex_no_shadow have "shadow f \<notin> set (columns df_ex)"
    by blast
  ultimately show "shadow f \<notin> set (columns df_filt_ex)"
    by (simp add: df_filt_ex_def columns_hard_other)
qed

theorem zip_code_examples_witness:
  "distinct (index df_filt_ex) \<and> 4 \<in> set (index df_filt_ex) \<and> 0 \<in> set (index df_filt_ex) \<and>
   5 \<in> set (index df_filt_ex) \<and>
   cell_at df_filt_ex 4 ''zip_codes'' = Some ''606'' \<and>
   4 \<in> rejected (snd (process_soft_rejects parse_ex df_filt_ex)) ''zip_codes'' \<and>
   cell_at (fst (process_soft_rejects parse_ex df_filt_ex)) 4 ''zip_codes'' = None \<and>
   cell_at (fst (process_soft_rejects parse_ex df_filt_ex)) 4 ''zip_codes_orig'' = Some ''606'' \<and>
   cell_at df_filt_ex 0 ''zip_codes'' = Some ''6060'' \<and>
   0 \<notin> rejected (snd (process_soft_rejects parse_ex df_filt_ex)) ''zip_codes'' \<and>
   cell_at (fst (process_soft_rejects parse_ex df_filt_ex)) 0 ''zip_codes'' = Some ''06060'' \<and>
   cell_at df_filt_ex 5 ''zip_codes'' = Some ''60601'' \<and>
   5 \<notin> rejected (snd (process_soft_rejects parse_ex df_filt_ex)) ''zip_codes'' \<and>
   cell_at (fst (process_soft_rejects parse_ex df_filt_ex)) 5 ''zip_codes'' = Some ''60601''"
proof -
  have d: "distinct (index df_filt_ex)" and i4: "4 \<in> set (index df_filt_ex)"
    and i0: "0 \<in> set (index df_filt_ex)" and i5: "5 \<in> set (index df_filt_ex)"
    by (simp_all add: df_filt_ex_index)
  note r4 = zip_code_examples [OF d i4, of parse_ex, THEN conjunct1, THEN mp,
      OF df_filt_ex_zip_codes(3)]
  note r0 = zip_code_examples [OF d i0, of parse_ex, THEN conjunct2, THEN conjunct1, THEN mp,
      OF df_filt_ex_zip_codes(1)]
  note r5 = zip_code_examples [OF d i5, of parse_ex, THEN conjunct2, THEN conjunct2, THEN mp,
      OF df_filt_ex_zip_codes(4)]
  show ?thesis
    by (intro conjI d i4 i0 i5 df_filt_ex_zip_codes(3) df_filt_ex_zip_codes(1) df_filt_ex_zip_codes(4)
          r4 [THEN conjunct1] r4 [THEN conjunct2, THEN conjunct1]
          r4 [THEN conjunct2, THEN conjunct2]
          r0 [THEN conjunct1] r0 [THEN conjunct2] r5 [THEN conjunct1] r5 [THEN conjunct2])
qed

theorem zip_codes_have_five_characters_witness:
  "distinct (index df_filt_ex) \<and> 3 \<in> set (index df_filt_ex) \<and>
   ''zip_codes_orig'' \<notin> set (columns df_filt_ex) \<and>
   cell_at (fst (process_soft_rejects parse_ex df_filt_ex)) 0 ''zip_codes'' = Some ''06060'' \<and>
   length ''06060'' = 5 \<and>
   cell_at df_filt_ex 3 ''zip_codes'' = Some ''606010'' \<and>
   re_match ZIP_CODES ''606010'' \<and>
   3 \<notin> rejected (snd (process_soft_rejects parse_ex df_filt_ex)) ''zip_codes'' \<and>
   cell_at (fst (process_soft_rejects parse_ex df_filt_ex)) 3 ''zip_codes_orig'' = None \<and>
   cell_at (fst (process_soft_rejects parse_ex df_filt_ex)) 3 ''zip_codes'' = None"
proof -
  have d: "distinct (index df_filt_ex)" and i: "3 \<in> set (index df_filt_ex)"
    by (simp_all add: df_filt_ex_index)
  have c: "''zip_codes_orig'' \<notin> set (columns df_filt_ex)"
    using df_filt_ex_no_shadow by (simp add: nullable_fields_def shadow_def)
  have z: "cell_at (fst (process_soft_rejects parse_ex df_filt_ex)) 0 ''zip_codes'' = Some ''06060''"
    using zip_6060 by (simp add: soft_zip_codes(2) [OF d] df_filt_ex_zip_codes zip_value_def)
  note r = zip_codes_have_five_characters [OF d i c, of parse_ex]
  note r1 = r [THEN conjunct1, THEN spec, THEN spec, THEN mp, OF z]
  note r2 = r [THEN conjunct2, THEN mp, OF df_filt_ex_zip_codes(2)]
  show ?thesis
    by (intro conjI d i c z r1 df_filt_ex_zip_codes(2) r2 [THEN conjunct1]
          r2 [THEN conjunct2, THEN conjunct1] r2 [THEN conjunct2, THEN conjunct2, THEN conjunct1]
          r2 [THEN conjunct2, THEN conjunct2, THEN conjunct2])
qed

theorem shadow_column_invariant_witness:
  "distinct (index df_filt_ex) \<and>
   ''zip_codes'' \<in> fst ` set nullable_fields \<and>
   4 \<in> set (index (fst (process_soft_rejects parse_ex df_filt_ex))) \<and>
   4 \<in> rejected (snd (process_soft_rejects parse_ex df_filt_ex)) ''zip_codes'' \<and>
   cell_at (fst (process_soft_rejects parse_ex df_filt_ex)) 4 (shadow ''zip_codes'') \<noteq> None \<and>
   cell_at (fst (process_soft_rejects parse_ex df_filt_ex)) 4 ''zip_codes'' = None"
proof -
  have d: "distinct (index df_filt_ex)"
    by (simp add: df_filt_ex_index)
  have f: "''zip_codes'' \<in> fst ` set nullable_fields"
    by (simp add: nullable_fields_def)
  have i: "4 \<in> set (index (fst (process_soft_rejects parse_ex df_filt_ex)))"
    by (simp add: index_process_soft_rejects df_filt_ex_index)
  have r: "4 \<in> rejected (snd (process_soft_rejects parse_ex df_filt_ex)) ''zip_codes''"
    using zip_606 by (simp add: soft_zip_codes(1) [OF d] df_filt_ex_index df_filt_ex_zip_codes)
  note inv = shadow_column_invariant [OF d df_filt_ex_no_shadow, of parse_ex, THEN bspec, OF f,
      THEN bspec, OF i]
  from inv r have "cell_at (fst (process_soft_rejects parse_ex df_filt_ex)) 4 (shadow ''zip_codes'') \<noteq> None"
    and "cell_at (fst (process_soft_rejects parse_ex df_filt_ex)) 4 ''zip_codes'' = None"
    by blast+
  with d f i r show ?thesis
    by blast
qed

lemma columns_select_cols [simp]: "columns (select_cols t cs) = cs"
  by (simp add: select_cols_def)

lemma cell_at_select_cols:
  "cell_at (select_cols t cs) i c = (if c \<in> set cs then cell_at t i c else None)"
  by (simp add: cell_at_def select_cols_def cell_def map_of_map_label split: option.splits)

lemma no_orig_in_names:
  "\<not> contains ''_orig'' ''latitude''" "\<not> contains ''_orig'' ''longitude''"
  by simp_all

lemma fst_scrub:
  "fst (scrub parse df file_name) =
     select_cols (fst (process_soft_rejects parse (fst (process_hard_rejects parse df))))
       (filter (\<lambda>col. \<not> contains ''_orig'' col)
          (columns (fst (process_soft_rejects parse (fst (process_hard_rejects parse df))))))"
  by (simp add: scrub_def Let_def case_prod_unfold)

text \<open>
  Claim C6. A row of the clean table whose location was \<^verbatim>\<open>(41.88, -87.62)\<close> has the
  latitude \<^verbatim>\<open>41.88\<close> and the longitude \<^verbatim>\<open>-87.62\<close>, and the clean table has no
  \<^verbatim>\<open>location\<close> column.
\<close>

theorem location_is_decomposed:
  assumes "distinct (index df)"
    and "i \<in> set (index (fst (scrub parse df file_name)))"
    and "cell_at df i ''location'' = Some ''(41.88, -87.62)''"
  shows "cell_at (fst (scrub parse df file_name)) i ''latitude'' = Some ''41.88'' \<and>
         cell_at (fst (scrub parse df file_name)) i ''longitude'' = Some ''-87.62'' \<and>
         ''location'' \<notin> set (columns (fst (scrub parse df file_name)))"
proof -
  let ?h = "fst (process_hard_rejects parse df)"
  have d: "distinct (index ?h)"
    using assms(1) by (rule distinct_index_hard)
  have i: "i \<in> set (index ?h)"
    using assms(2) by (simp add: index_scrub_clean)
  have l: "cell_at ?h i ''location'' = Some ''(41.88, -87.62)''"
    using assms(3) by (simp add: cell_at_hard_other [OF assms(1) i])
  show ?thesis
    using location_example
    by (simp add: fst_scrub cell_at_select_cols soft_location [OF d] l no_orig_in_names
          del: One_nat_def)
qed

lemma df_ex_location: "cell_at df_ex 0 ''location'' = Some ''(41.88, -87.62)''"
  by (simp add: cell_at_def df_ex_def cell_def keep_cols_def)

theorem location_is_decomposed_witness:
  "distinct (index df_ex) \<and>
   0 \<in> set (index (fst (scrub parse_ex df_ex ''crimes_001.csv''))) \<and>
   cell_at df_ex 0 ''location'' = Some ''(41.88, -87.62)'' \<and>
   cell_at (fst (scrub parse_ex df_ex ''crimes_001.csv'')) 0 ''latitude'' = Some ''41.88'' \<and>
   cell_at (fst (scrub parse_ex df_ex ''crimes_001.csv'')) 0 ''longitude'' = Some ''-87.62'' \<and>
   ''location'' \<notin> set (columns (fst (scrub parse_ex df_ex ''crimes_001.csv'')))"
proof -
  have d: "distinct (index df_ex)"
    by (simp add: df_ex_index)
  have i: "0 \<in> set (index (fst (scrub parse_ex df_ex ''crimes_001.csv'')))"
    by (simp add: index_scrub_clean df_ex_filtered_index)
  show ?thesis
    by (intro conjI d i df_ex_location location_is_decomposed [OF d i df_ex_location])
qed

section \<open>Rows of the clean table and of the hard-reject report\<close>

text \<open>
  Claim C1. Every row of the original table ends in exactly one of the clean table and the
  hard-reject report: its label is in the index of one and not in the index of the other.
\<close>

theorem clean_and_hard_report_partition:
  "i \<in> set (index df) \<Longrightarrow>
   (i \<in> set (index (fst (scrub parse df file_name)))) \<noteq>
   (i \<in> set (index (fst (snd (scrub parse df file_name)))))"
  by (simp add: index_scrub_clean index_scrub_hard_report index_process_hard_rejects)

theorem clean_and_hard_report_partition_witness:
  "1 \<in> set (index df_ex) \<and>
   1 \<notin> set (index (fst (scrub parse_ex df_ex ''crimes_001.csv''))) \<and>
   1 \<in> set (index (fst (snd (scrub parse_ex df_ex ''crimes_001.csv''))))"
proof -
  have h: "1 \<in> set (index df_ex)"
    by (simp add: df_ex_index)
  have "1 \<notin> set (index (fst (scrub parse_ex df_ex ''crimes_001.csv'')))"
    by (simp add: index_scrub_clean df_ex_filtered_index)
  with h clean_and_hard_report_partition [OF h, of parse_ex "''crimes_001.csv''"] show ?thesis
    by simp
qed

section \<open>Which table the phases change\<close>

lemma process_fields_at_eq:
  "a < length s \<Longrightarrow>
   process_fields_at parse m rules a (s, rej) =
     (s[a := fst (process_fields parse m rules (s ! a, rej))],
      snd (process_fields parse m rules (s ! a, rej)))"
proof (induction rules arbitrary: s rej)
  case Nil
  then show ?case by (simp add: process_fields_at_def)
next
  case (Cons r rules)
  obtain f p where r: "r = (f, p)" by (cases r)
  obtain t rej' where t: "process_field parse m (s ! a) f rej p = (t, rej')"
    by (cases "process_field parse m (s ! a) f rej p")
  have "process_fields_at parse m (r # rules) a (s, rej) =
        process_fields_at parse m rules a (s[a := t], rej')"
    by (simp add: process_fields_at_def process_field_at_def r t)
  also have "\<dots> = (s[a := fst (process_fields parse m rules (t, rej'))],
                    snd (process_fields parse m rules (t, rej')))"
    using Cons.prems by (simp add: Cons.IH)
  finally show ?case
    by (simp add: r t)
qed

lemma filter_rejects_at_eq:
  "a < length s \<Longrightarrow>
   take (length s) (fst (filter_rejects_at s a rej)) = s \<and>
   length s \<le> length (fst (filter_rejects_at s a rej)) \<and>
   snd (filter_rejects_at s a rej) < length (fst (filter_rejects_at s a rej)) \<and>
   (snd (filter_rejects_at s a rej) = a \<or> length s \<le> snd (filter_rejects_at s a rej)) \<and>
   fst (filter_rejects_at s a rej) ! snd (filter_rejects_at s a rej) = filter_rejects (s ! a) rej"
proof (induction rej arbitrary: s a)
  case Nil
  then show ?case by simp
next
  case (Cons x rej)
  obtain c ids where x: "x = (c, ids)" by (cases x)
  show ?case
  proof (cases "ids = {}")
    case True
    with Cons.IH [OF Cons.prems] show ?thesis by (simp add: x)
  next
    case False
    let ?s = "s @ [loc_not_isin (s ! a) ids]"
    have "length s < length ?s" by simp
    from Cons.IH [OF this]
    have ih: "take (Suc (length s)) (fst (filter_rejects_at ?s (length s) rej)) = ?s"
      "Suc (length s) \<le> length (fst (filter_rejects_at ?s (length s) rej))"
      "snd (filter_rejects_at ?s (length s) rej) < length (fst (filter_rejects_at ?s (length s) rej))"
      "snd (filter_rejects_at ?s (length s) rej) = length s \<or>
         Suc (length s) \<le> snd (filter_rejects_at ?s (length s) rej)"
      "fst (filter_rejects_at ?s (length s) rej) ! snd (filter_rejects_at ?s (length s) rej) =
         filter_rejects (loc_not_isin (s ! a) ids) rej"
      by simp_all
    have "take (length s) (fst (filter_rejects_at ?s (length s) rej)) =
          take (length s) (take (Suc (length s)) (fst (filter_rejects_at ?s (length s) rej)))"
      by (simp add: min_def)
    also have "\<dots> = s"
      by (simp only: ih(1)) simp
    finally have "take (length s) (fst (filter_rejects_at ?s (length s) rej)) = s" .
    with ih False show ?thesis
      by (auto simp: x)
  qed
qed


lemma process_hard_rejects_at_eq:
  assumes "df < length s"
  shows "take (length s) (fst (process_hard_rejects_at parse s df)) = s \<and>
         length s \<le> fst (snd (process_hard_rejects_at parse s df)) \<and>
         fst (snd (process_hard_rejects_at parse s df)) < length (fst (process_hard_rejects_at parse s df)) \<and>
         fst (process_hard_rejects_at parse s df) ! fst (snd (process_hard_rejects_at parse s df)) =
           fst (process_hard_rejects parse (s ! df)) \<and>
         snd (snd (process_hard_rejects_at parse s df)) = snd (process_hard_rejects parse (s ! df))"
proof -
  define T where "T = fst (process_fields parse True nonnull_fields (s ! df, []))"
  define HR where "HR = snd (process_fields parse True nonnull_fields (s ! df, []))"
  define s2 where "s2 = s @ [T]"
  have pf: "process_fields_at parse True nonnull_fields (length s) (s @ [s ! df], []) = (s2, HR)"
    by (subst process_fields_at_eq) (simp_all add: T_def HR_def s2_def)
  have r: "process_hard_rejects_at parse s df =
        (fst (filter_rejects_at s2 (length s) HR), snd (filter_rejects_at s2 (length s) HR), HR)"
    by (simp add: process_hard_rejects_at_def copy_def pf case_prod_unfold Let_def)
  have p: "process_hard_rejects parse (s ! df) = (filter_rejects T HR, HR)"
    by (simp add: process_hard_rejects_def Let_def case_prod_unfold T_def HR_def)
  have "length s < length s2"
    by (simp add: s2_def)
  from filter_rejects_at_eq [OF this, of HR]
  have f: "take (length s2) (fst (filter_rejects_at s2 (length s) HR)) = s2"
    "snd (filter_rejects_at s2 (length s) HR) < length (fst (filter_rejects_at s2 (length s) HR))"
    "snd (filter_rejects_at s2 (length s) HR) = length s \<or>
       length s2 \<le> snd (filter_rejects_at s2 (length s) HR)"
    "fst (filter_rejects_at s2 (length s) HR) ! snd (filter_rejects_at s2 (length s) HR) =
       filter_rejects (s2 ! length s) HR"
    by simp_all
  have "take (length s) (fst (filter_rejects_at s2 (length s) HR)) =
        take (length s) (take (length s2) (fst (filter_rejects_at s2 (length s) HR)))"
    by (simp add: s2_def min_def)
  also have "\<dots> = s"
    by (simp only: f(1)) (simp add: s2_def)
  finally have t: "take (length s) (fst (filter_rejects_at s2 (length s) HR)) = s" .
  from f(3) have "length s \<le> snd (filter_rejects_at s2 (length s) HR)"
    by (auto simp: s2_def)
  with t f(2) f(4) show ?thesis
    by (simp add: r p s2_def)
qed

lemma process_soft_rejects_at_eq:
  "df_filt < length s \<Longrightarrow>
   process_soft_rejects_at parse s df_filt =
     (s[df_filt := fst (process_soft_rejects parse (s ! df_filt))],
      snd (process_soft_rejects parse (s ! df_filt)))"
  by (simp add: process_soft_rejects_at_def process_soft_rejects_def process_fields_at_eq)

text \<open>
  Claim C9, as stated, fails. On the store that holds the chunk of six rows, the hard-reject
  phase returns a table that is another object than the loaded one; the loaded table is
  unchanged and keeps its six rows, the returned table has four.
\<close>

theorem hard_phase_mutates_loaded_table_counterexample:
  "fst (snd (process_hard_rejects_at parse_ex [df_ex] 0)) \<noteq> 0 \<and>
   fst (process_hard_rejects_at parse_ex [df_ex] 0) ! 0 = df_ex \<and>
   index (fst (process_hard_rejects_at parse_ex [df_ex] 0) ! 0) = [0, 1, 2, 3, 4, 5] \<and>
   index (fst (process_hard_rejects_at parse_ex [df_ex] 0) !
            fst (snd (process_hard_rejects_at parse_ex [df_ex] 0))) = [0, 3, 4, 5]"
proof -
  have l: "0 < length [df_ex]" by simp
  note r = process_hard_rejects_at_eq [OF l, of parse_ex]
  from r have "take 1 (fst (process_hard_rejects_at parse_ex [df_ex] 0)) = [df_ex]"
    by simp
  then have "take 1 (fst (process_hard_rejects_at parse_ex [df_ex] 0)) ! 0 = df_ex"
    by simp
  then have 0: "fst (process_hard_rejects_at parse_ex [df_ex] 0) ! 0 = df_ex"
    by simp
  from r have "1 \<le> fst (snd (process_hard_rejects_at parse_ex [df_ex] 0))"
    by simp
  then have 1: "fst (snd (process_hard_rejects_at parse_ex [df_ex] 0)) \<noteq> 0"
    by simp
  from r have 2: "index (fst (process_hard_rejects_at parse_ex [df_ex] 0) !
            fst (snd (process_hard_rejects_at parse_ex [df_ex] 0))) = [0, 3, 4, 5]"
    by (simp add: df_ex_filtered_index)
  from 0 1 2 show ?thesis
    by (simp add: df_ex_index)
qed

text \<open>
  Claim C9, amended. The hard-reject phase works on a copy: every table that existed
  before, the loaded one included, is unchanged; the filtered table is a new object, and it
  holds what \<open>process_hard_rejects\<close> computes from the loaded table. The soft-reject phase
  changes the table it is given in place and makes no new object.
\<close>

theorem hard_phase_works_on_a_copy:
  assumes "df < length s"
  shows "take (length s) (fst (process_hard_rejects_at parse s df)) = s \<and>
         length s \<le> fst (snd (process_hard_rejects_at parse s df)) \<and>
         fst (snd (process_hard_rejects_at parse s df)) < length (fst (process_hard_rejects_at parse s df)) \<and>
         fst (process_hard_rejects_at parse s df) ! fst (snd (process_hard_rejects_at parse s df)) =
           fst (process_hard_rejects parse (s ! df)) \<and>
         snd (snd (process_hard_rejects_at parse s df)) = snd (process_hard_rejects parse (s ! df)) \<and>
         process_soft_rejects_at parse s df =
           (s[df := fst (process_soft_rejects parse (s ! df))],
            snd (process_soft_rejects parse (s ! df)))"
  using process_hard_rejects_at_eq [OF assms] process_soft_rejects_at_eq [OF assms]
  by simp

theorem hard_phase_works_on_a_copy_witness:
  "0 < length [df_ex] \<and>
   take (length [df_ex]) (fst (process_hard_rejects_at parse_ex [df_ex] 0)) = [df_ex] \<and>
   length [df_ex] \<le> fst (snd (process_hard_rejects_at parse_ex [df_ex] 0)) \<and>
   fst (snd (process_hard_rejects_at parse_ex [df_ex] 0)) <
     length (fst (process_hard_rejects_at parse_ex [df_ex] 0)) \<and>
   fst (process_hard_rejects_at parse_ex [df_ex] 0) ! fst (snd (process_hard_rejects_at parse_ex [df_ex] 0)) =
     fst (process_hard_rejects parse_ex ([df_ex] ! 0)) \<and>
   snd (snd (process_hard_rejects_at parse_ex [df_ex] 0)) =
     snd (process_hard_rejects parse_ex ([df_ex] ! 0)) \<and>
   process_soft_rejects_at parse_ex [df_ex] 0 =
     ([df_ex][0 := fst (process_soft_rejects parse_ex ([df_ex] ! 0))],
      snd (process_soft_rejects parse_ex ([df_ex] ! 0)))"
proof -
  have l: "0 < length [df_ex]" by simp
  show ?thesis
    by (rule conjI [OF l hard_phase_works_on_a_copy [OF l]])
qed

end
